theory Spec2Isabelle
  imports Complex_Main "HOL-Library.Word"
begin

section \<open>Python values used by \<open>main.py\<close>\<close>

subsection \<open>Integers as text\<close>

text \<open>
  An f-string field \<open>{x1}\<close> holding a Python \<open>int\<close> is replaced by \<open>str(x1)\<close>: the decimal
  digits, most significant first, after a minus sign when the value is negative.
\<close>

definition digit_char :: "int \<Rightarrow> char" where
  "digit_char d = ''0123456789'' ! nat d"

function str_nat :: "int \<Rightarrow> string" where
  "str_nat n = (if n < 10 then [digit_char n] else str_nat (n div 10) @ [digit_char (n mod 10)])"
  by pat_completeness auto
termination
  by (relation "measure nat") auto

declare str_nat.simps [simp del]

definition str_int :: "int \<Rightarrow> string" where
  "str_int i = (if i < 0 then CHR ''-'' # str_nat (- i) else str_nat i)"

text \<open>Reading decimal text back, used to say that \<open>str_int\<close> writes a decimal number.\<close>

definition digit_val :: "char \<Rightarrow> nat" where
  "digit_val c = of_char c - 48"

definition is_digit :: "char \<Rightarrow> bool" where
  "is_digit c \<longleftrightarrow> c \<in> set ''0123456789''"

definition decimal_nat :: "string \<Rightarrow> nat" where
  "decimal_nat s = foldl (\<lambda>acc c. 10 * acc + digit_val c) 0 s"

definition decimal_int :: "string \<Rightarrow> int" where
  "decimal_int s = (case s of [] \<Rightarrow> 0
     | c # cs \<Rightarrow> if c = CHR ''-'' then - int (decimal_nat cs) else int (decimal_nat s))"

subsection \<open>Floats\<close>

text \<open>
  A Python \<open>float\<close> is an IEEE 754 binary64 number. A finite one is modelled by the rational
  number it denotes, and an arithmetic operation is the exact operation followed by
  rounding to the nearest binary64 value, ties to the even significand. The coordinates
  that reach the arithmetic below come from OpenCV's 32-bit point arrays and from an
  image's row count, so infinities, NaN and negative zero do not arise and are left out
  of the model; \<open>round_double\<close> rounds with an exponent that is unbounded above.
\<close>

type_synonym pyfloat = rat

definition ipow :: "int \<Rightarrow> int \<Rightarrow> rat" where
  "ipow b e = (if 0 \<le> e then of_int b ^ nat e else 1 / of_int b ^ nat (- e))"

text \<open>
  \<open>ndigits b p\<close> is the number of digits of \<open>p > 0\<close> in base \<open>b\<close>, and \<open>ilog b q\<close> the
  integer \<open>k\<close> with \<open>b ^ k \<le> q < b ^ (k + 1)\<close>, for a rational \<open>q > 0\<close>.
\<close>

function ndigits :: "int \<Rightarrow> int \<Rightarrow> int" where
  "ndigits b p = (if 0 < p \<and> 1 < b then ndigits b (p div b) + 1 else 0)"
  by pat_completeness auto
termination
  by (relation "measure (\<lambda>(b, p). nat p)") (auto simp: int_div_less_self)

declare ndigits.simps [simp del]

definition ilog :: "int \<Rightarrow> rat \<Rightarrow> int" where
  "ilog b q = (if 1 \<le> q then ndigits b \<lfloor>q\<rfloor> - 1 else - ndigits b (\<lceil>1 / q\<rceil> - 1))"

text \<open>
  \<open>round_to u q\<close> is the multiple of \<open>u\<close> nearest to \<open>q\<close>, the even multiple when \<open>q\<close> lies
  halfway between two. A binary64 number has 53 significant bits, so the spacing \<open>u\<close> at
  \<open>q\<close> is \<open>2 ^ (e - 52)\<close> where \<open>2 ^ e \<le> \<bar>q\<bar> < 2 ^ (e + 1)\<close>, and \<open>e\<close> is not less than \<open>- 1022\<close>.
\<close>

definition tie_to_even :: "int \<Rightarrow> rat \<Rightarrow> int" where
  "tie_to_even f r =
     (if r < 1 / 2 then f else if 1 / 2 < r then f + 1 else if even f then f else f + 1)"

definition round_half_even :: "rat \<Rightarrow> int" where
  "round_half_even x = tie_to_even \<lfloor>x\<rfloor> (x - of_int \<lfloor>x\<rfloor>)"

definition round_to :: "rat \<Rightarrow> rat \<Rightarrow> rat" where
  "round_to u q = of_int (round_half_even (q / u)) * u"

definition round_double :: "rat \<Rightarrow> pyfloat" where
  "round_double q =
     (if q = 0 then 0 else round_to (ipow 2 (max (ilog 2 \<bar>q\<bar>) (- 1022) - 52)) q)"

text \<open>\<open>float(i)\<close>, \<open>a / b\<close>, \<open>a - b\<close> and \<open>a * b\<close> on floats.\<close>

definition float_of_int :: "int \<Rightarrow> pyfloat" where
  "float_of_int i = round_double (of_int i)"

definition fdiv :: "pyfloat \<Rightarrow> pyfloat \<Rightarrow> pyfloat" where
  "fdiv a b = round_double (a / b)"

definition fsub :: "pyfloat \<Rightarrow> pyfloat \<Rightarrow> pyfloat" where
  "fsub a b = round_double (a - b)"

definition fmul :: "pyfloat \<Rightarrow> pyfloat \<Rightarrow> pyfloat" where
  "fmul a b = round_double (a * b)"

text \<open>
  \<open>rounds_to q c\<close>: the float \<open>c\<close> is the rounding of the exact value \<open>q\<close>, within the relative
  error of half a unit in the last place.
\<close>

definition rounds_to :: "rat \<Rightarrow> pyfloat \<Rightarrow> bool" where
  "rounds_to q c \<longleftrightarrow> c = round_double q \<and> \<bar>c - q\<bar> \<le> \<bar>q\<bar> / 2 ^ 53"

subsection \<open>Floats as text\<close>

text \<open>
  An f-string field holding a float is replaced by \<open>repr\<close> of it: the shortest string of
  decimal digits that rounds back to the same float (the nearest to it when there are
  several of that length, the one with the even last digit when two are equally near,
  and at most 17 digits), laid out in positional notation with
  at least one digit after the point, or in exponent notation when the decimal point
  would sit more than 16 places right or more than 3 places left of the first digit.

  \<open>repr_try a p\<close> looks for such a number with \<open>p\<close> significant digits, as a pair \<open>(n, s)\<close>
  standing for \<open>n * 10 ^ s\<close>: with \<open>s\<close> the place of the last digit and \<open>x\<close> the float in units
  of that place, the two candidates are the integers on either side of \<open>x\<close>.
\<close>

definition repr_choose :: "int \<Rightarrow> rat \<Rightarrow> int \<Rightarrow> bool \<Rightarrow> bool \<Rightarrow> (int \<times> int) option" where
  "repr_choose s x lo oklo okhi =
     (if oklo \<and> okhi then
        (if x - of_int lo < of_int (lo + 1) - x then Some (lo, s)
         else if of_int (lo + 1) - x < x - of_int lo then Some (lo + 1, s)
         else if even lo then Some (lo, s)
         else Some (lo + 1, s))
      else if oklo then Some (lo, s)
      else if okhi then Some (lo + 1, s)
      else None)"

definition repr_between :: "pyfloat \<Rightarrow> int \<Rightarrow> rat \<Rightarrow> int \<Rightarrow> (int \<times> int) option" where
  "repr_between a s x lo =
     repr_choose s x lo (round_double (of_int lo * ipow 10 s) = a)
       (round_double (of_int (lo + 1) * ipow 10 s) = a)"

definition repr_scaled :: "pyfloat \<Rightarrow> int \<Rightarrow> rat \<Rightarrow> (int \<times> int) option" where
  "repr_scaled a s x = repr_between a s x \<lfloor>x\<rfloor>"

definition repr_at :: "pyfloat \<Rightarrow> int \<Rightarrow> (int \<times> int) option" where
  "repr_at a s = repr_scaled a s (a / ipow 10 s)"

definition repr_try :: "pyfloat \<Rightarrow> nat \<Rightarrow> (int \<times> int) option" where
  "repr_try a p = repr_at a (ilog 10 a - int p + 1)"

definition repr_17 :: "pyfloat \<Rightarrow> int \<Rightarrow> int \<times> int" where
  "repr_17 a s = (round_half_even (a / ipow 10 s), s)"

function shortest_digits :: "pyfloat \<Rightarrow> nat \<Rightarrow> int \<times> int" where
  "shortest_digits a p =
     (if 17 \<le> p then repr_17 a (ilog 10 a - 16)
      else case repr_try a p of Some r \<Rightarrow> r | None \<Rightarrow> shortest_digits a (Suc p))"
  by pat_completeness auto
termination
  by (relation "measure (\<lambda>(a, p). 17 - p)") auto

declare shortest_digits.simps [simp del]

definition strip_zeros :: "string \<Rightarrow> string" where
  "strip_zeros ds = rev (dropWhile (\<lambda>c. c = CHR ''0'') (rev ds))"

definition str_exponent :: "int \<Rightarrow> string" where
  "str_exponent e =
     (if e < 0 then ''e-'' else ''e+'') @
     (if \<bar>e\<bar> < 10 then CHR ''0'' # str_nat \<bar>e\<bar> else str_nat \<bar>e\<bar>)"

definition layout_digits :: "string \<Rightarrow> int \<Rightarrow> string" where
  "layout_digits ds decpt =
     (if decpt \<le> - 4 \<or> 16 < decpt then
        (if length ds = 1 then ds else take 1 ds @ ''.'' @ drop 1 ds) @ str_exponent (decpt - 1)
      else if decpt \<le> 0 then ''0.'' @ replicate (nat (- decpt)) CHR ''0'' @ ds
      else if int (length ds) \<le> decpt then
        ds @ replicate (nat decpt - length ds) CHR ''0'' @ ''.0''
      else take (nat decpt) ds @ ''.'' @ drop (nat decpt) ds)"

definition layout_number :: "string \<Rightarrow> int \<Rightarrow> string" where
  "layout_number ds s = layout_digits (strip_zeros ds) (s + int (length ds))"

definition float_repr :: "pyfloat \<Rightarrow> string" where
  "float_repr v =
     (if v = 0 then ''0.0''
      else (if v < 0 then ''-'' else []) @
           (case shortest_digits \<bar>v\<bar> 1 of (n, s) \<Rightarrow> layout_number (str_nat n) s))"

section \<open>The program\<close>

subsection \<open>Data and the OpenCV routines\<close>

text \<open>
  A contour is OpenCV's \<open>N \<times> 1 \<times> 2\<close> array of 32-bit points, \<open>contour[i][0]\<close> being the
  pair \<open>(x, y)\<close> in image coordinates; an image is its array of rows. The routines of
  \<open>cv2\<close> are not part of the program: the model takes them as a parameter and says
  nothing about what they compute.
\<close>

type_synonym point = "int \<times> int"
type_synonym contour = "point list"
type_synonym pixel = "8 word \<times> 8 word \<times> 8 word"
type_synonym image = "pixel list list"
type_synonym gray = "8 word list list"

record opencv =
  cvtColor :: "image \<Rightarrow> gray"
  GaussianBlur :: "gray \<Rightarrow> nat \<times> nat \<Rightarrow> nat \<Rightarrow> gray"
  Canny :: "gray \<Rightarrow> nat \<Rightarrow> nat \<Rightarrow> gray"
  findContours :: "gray \<Rightarrow> contour list"
  arcLength :: "contour \<Rightarrow> bool \<Rightarrow> pyfloat"
  approxPolyDP :: "contour \<Rightarrow> pyfloat \<Rightarrow> bool \<Rightarrow> contour"

datatype error = ValueError string

definition backslash :: char where
  "backslash = CHR 0x5C"

definition newline :: char where
  "newline = CHR 0x0A"

subsection \<open>\<open>bezier_to_equations\<close>\<close>

text \<open>
  Called once, with integer end points and float control points. \<open>float(c1[0])\<close> leaves a
  float as it is, and \<open>img_height - c1[1]\<close> subtracts a float from an integer, in floats.
\<close>

definition bezier_to_equations ::
  "point \<Rightarrow> pyfloat \<times> pyfloat \<Rightarrow> pyfloat \<times> pyfloat \<Rightarrow> point \<Rightarrow> int \<Rightarrow> string \<times> string" where
  "bezier_to_equations start c1 c2 endp img_height =
     (let start' = (float_of_int (fst start), float_of_int (img_height - snd start));
          c1' = (fst c1, fsub (float_of_int img_height) (snd c1));
          c2' = (fst c2, fsub (float_of_int img_height) (snd c2));
          endp' = (float_of_int (fst endp), float_of_int (img_height - snd endp));
          equation_x =
            ''((1-t)^3*'' @ float_repr (fst start') @ '' + '' @
            ''3*(1-t)^2*t*'' @ float_repr (fst c1') @ '' + '' @
            ''3*(1-t)*t^2*'' @ float_repr (fst c2') @ '' + '' @
            ''t^3*'' @ float_repr (fst endp') @ '')'';
          equation_y =
            ''(1-t)^3*'' @ float_repr (snd start') @ '' + '' @
            ''3*(1-t)^2*t*'' @ float_repr (snd c1') @ '' + '' @
            ''3*(1-t)*t^2*'' @ float_repr (snd c2') @ '' + '' @
            ''t^3*'' @ float_repr (snd endp')
      in (equation_x, equation_y))"

subsection \<open>\<open>image_to_equations\<close>\<close>

text \<open>The body of the inner loop: the line appended for the segment from \<open>start\<close> to \<open>endp\<close>.\<close>

definition segment_equation :: "int \<Rightarrow> point \<Rightarrow> point \<Rightarrow> string" where
  "segment_equation img_height start endp =
     (let x1 = fst start; y1 = snd start;
          x2 = fst endp; y2 = snd endp;
          dx = x2 - x1;
          dy = y2 - y1
      in if dx = 0 then
           (let y_top = img_height - max y1 y2;
                y_bottom = img_height - min y1 y2
            in ''x = '' @ str_int x1 @ '' '' @ [backslash] @ ''left'' @ [backslash] @ ''{'' @
               str_int y_top @ '' <= y <= '' @ str_int y_bottom @
               [backslash] @ ''right'' @ [backslash] @ ''}'')
         else if dy = 0 then
           (let y_cart = img_height - y1;
                x_left = min x1 x2;
                x_right = max x1 x2
            in ''y = '' @ str_int y_cart @ '' '' @ [backslash] @ ''left'' @ [backslash] @ ''{'' @
               str_int x_left @ '' <= x <= '' @ str_int x_right @
               [backslash] @ ''right'' @ [backslash] @ ''}'')
         else
           (let c1 = (fdiv (float_of_int (2 * x1 + x2)) 3, fdiv (float_of_int (2 * y1 + y2)) 3);
                c2 = (fdiv (float_of_int (x1 + 2 * x2)) 3, fdiv (float_of_int (y1 + 2 * y2)) 3);
                (eq_x, eq_y) = bezier_to_equations (x1, y1) c1 c2 (x2, y2) img_height
            in ''('' @ eq_x @ '', '' @ eq_y @ '')''))"

text \<open>
  The inner loop \<open>for i in range(len(approx))\<close>, appending to \<open>lines\<close>, and the outer loop
  over the contours with its two \<open>continue\<close> statements.
\<close>

definition polygon_equations :: "int \<Rightarrow> contour \<Rightarrow> string list \<Rightarrow> string list" where
  "polygon_equations img_height approx lines =
     foldl (\<lambda>lines i.
              lines @ [segment_equation img_height (approx ! i) (approx ! ((i + 1) mod length approx))])
       lines [0..<length approx]"

fun contour_loop :: "opencv \<Rightarrow> int \<Rightarrow> pyfloat \<Rightarrow> contour list \<Rightarrow> string list \<Rightarrow> string list" where
  "contour_loop cv img_height inaccuracy_value [] lines = lines"
| "contour_loop cv img_height inaccuracy_value (contour # rest) lines =
     (if length contour < 2 then contour_loop cv img_height inaccuracy_value rest lines
      else
        let epsilon = fmul inaccuracy_value (arcLength cv contour True);
            approx = approxPolyDP cv contour epsilon True
        in if length approx < 2 then contour_loop cv img_height inaccuracy_value rest lines
           else contour_loop cv img_height inaccuracy_value rest
                  (polygon_equations img_height approx lines))"

fun join_lines :: "string list \<Rightarrow> string" where
  "join_lines [] = []"
| "join_lines [l] = l"
| "join_lines (l # ls) = l @ [newline] @ join_lines ls"

definition fallback_line :: string where
  "fallback_line =
     ''# No contours/equations were detected. Try a clearer or higher-contrast image.''"

text \<open>The lines of a text, as \<open>text.split("\n")\<close> gives them.\<close>

fun split_lines :: "string \<Rightarrow> string list" where
  "split_lines [] = [[]]"
| "split_lines (c # cs) =
     (if c = newline then [] # split_lines cs
      else case split_lines cs of [] \<Rightarrow> [[c]] | l # ls \<Rightarrow> (c # l) # ls)"

definition detect_contours :: "opencv \<Rightarrow> image \<Rightarrow> contour list" where
  "detect_contours cv image_bgr =
     (let gray = cvtColor cv image_bgr;
          gray = GaussianBlur cv gray (5, 5) 0;
          edges = Canny cv gray 100 200
      in findContours cv edges)"

text \<open>The value of \<open>lines\<close> when the loop over the contours has ended.\<close>

definition equation_lines :: "opencv \<Rightarrow> image \<Rightarrow> pyfloat \<Rightarrow> string list" where
  "equation_lines cv img inaccuracy_value =
     (let img_height = int (length img);
          contours = detect_contours cv img
      in contour_loop cv img_height inaccuracy_value contours [])"

definition image_to_equations :: "opencv \<Rightarrow> image option \<Rightarrow> pyfloat \<Rightarrow> error + string" where
  "image_to_equations cv image_bgr inaccuracy_value =
     (case image_bgr of
        None \<Rightarrow> Inl (ValueError ''Could not decode image.'')
      | Some img \<Rightarrow>
          let lines = equation_lines cv img inaccuracy_value
          in if lines = [] then Inr fallback_line else Inr (join_lines lines))"

text \<open>The segment that the inner loop visits at index \<open>i\<close>.\<close>

definition segment_at :: "int \<Rightarrow> contour \<Rightarrow> nat \<Rightarrow> string" where
  "segment_at img_height approx i =
     segment_equation img_height (approx ! i) (approx ! ((i + 1) mod length approx))"

type_synonym bezier = "rat \<times> rat \<times> rat \<times> rat"

text \<open>The cubic polynomial in \<open>t\<close> with the texts of its four coefficients filled in.\<close>

definition blend_text :: "string \<Rightarrow> string \<Rightarrow> string \<Rightarrow> string \<Rightarrow> string" where
  "blend_text a b c d =
     ''(1-t)^3*'' @ a @ '' + 3*(1-t)^2*t*'' @ b @ '' + 3*(1-t)*t^2*'' @ c @ '' + t^3*'' @ d"

text \<open>
  The eight numbers that \<open>bezier_to_equations\<close> writes for a segment that is on neither
  axis, first the four of the \<open>x\<close> polynomial and then the four of the \<open>y\<close> polynomial,
  and the line made of the texts of eight numbers.
\<close>

definition curve_coefficients :: "int \<Rightarrow> point \<Rightarrow> point \<Rightarrow> bezier \<times> bezier" where
  "curve_coefficients img_height start endp =
     (let x1 = fst start; y1 = snd start;
          x2 = fst endp; y2 = snd endp;
          c1 = (fdiv (float_of_int (2 * x1 + x2)) 3, fdiv (float_of_int (2 * y1 + y2)) 3);
          c2 = (fdiv (float_of_int (x1 + 2 * x2)) 3, fdiv (float_of_int (y1 + 2 * y2)) 3)
      in ((float_of_int x1, fst c1, fst c2, float_of_int x2),
          (float_of_int (img_height - y1), fsub (float_of_int img_height) (snd c1),
           fsub (float_of_int img_height) (snd c2), float_of_int (img_height - y2))))"

fun curve_text :: "bezier \<times> bezier \<Rightarrow> string" where
  "curve_text ((a, b, c, d), (e, f, g, h)) =
     ''('' @ (''('' @ blend_text (float_repr a) (float_repr b) (float_repr c) (float_repr d) @ '')'') @
     '', '' @ blend_text (float_repr e) (float_repr f) (float_repr g) (float_repr h) @ '')''"

section \<open>The specification's equations and their text\<close>

text \<open>
  The definitions of this section follow the words of the specification, not the code:
  its tagged \<open>Equation\<close> value, the flip \<open>cartY\<close>, the classification of a segment with
  exact thirds for the control points, and the rendering rules of its section 6, where
  values are decimal numbers, written as integers where integral.
\<close>

datatype equation =
    VerticalLine int int int
  | HorizontalLine int int int
  | ParametricCurve bezier bezier

definition spec_cartY :: "int \<Rightarrow> int \<Rightarrow> int" where
  "spec_cartY imageHeight y = imageHeight - y"

definition spec_control :: "rat \<Rightarrow> rat \<Rightarrow> bezier" where
  "spec_control a b = (a, a + (b - a) / 3, a + 2 * (b - a) / 3, b)"

definition spec_equation :: "int \<Rightarrow> point \<Rightarrow> point \<Rightarrow> equation" where
  "spec_equation imageHeight p1 p2 =
     (if fst p2 - fst p1 = 0 then
        VerticalLine (fst p1)
          (min (spec_cartY imageHeight (snd p1)) (spec_cartY imageHeight (snd p2)))
          (max (spec_cartY imageHeight (snd p1)) (spec_cartY imageHeight (snd p2)))
      else if snd p2 - snd p1 = 0 then
        HorizontalLine (spec_cartY imageHeight (snd p1)) (min (fst p1) (fst p2)) (max (fst p1) (fst p2))
      else
        (case spec_control (of_int (snd p1)) (of_int (snd p2)) of (y1, c1y, c2y, y2) \<Rightarrow>
           ParametricCurve (spec_control (of_int (fst p1)) (of_int (fst p2)))
             (of_int imageHeight - y1, of_int imageHeight - c1y,
              of_int imageHeight - c2y, of_int imageHeight - y2)))"

definition spec_number :: "rat \<Rightarrow> string" where
  "spec_number v = (if of_int \<lfloor>v\<rfloor> = v then str_int \<lfloor>v\<rfloor> else float_repr v)"

definition range_text :: "string \<Rightarrow> string \<Rightarrow> string \<Rightarrow> string \<Rightarrow> string" where
  "range_text axis v lo hi =
     axis @ '' = '' @ v @ '' '' @ [backslash] @ ''left'' @ [backslash] @ ''{'' @
     lo @ '' <= '' @ (if axis = ''x'' then ''y'' else ''x'') @ '' <= '' @ hi @
     [backslash] @ ''right'' @ [backslash] @ ''}''"

fun spec_render :: "equation \<Rightarrow> string" where
  "spec_render (VerticalLine x y0 y1) = range_text ''x'' (str_int x) (str_int y0) (str_int y1)"
| "spec_render (HorizontalLine y x0 x1) = range_text ''y'' (str_int y) (str_int x0) (str_int x1)"
| "spec_render (ParametricCurve (a, b, c, d) (e, f, g, h)) =
     ''('' @ ''('' @ blend_text (spec_number a) (spec_number b) (spec_number c) (spec_number d) @ '')'' @
     '', '' @
     ''('' @ blend_text (spec_number e) (spec_number f) (spec_number g) (spec_number h) @ '')'' @ '')''"

section \<open>Example inputs\<close>

text \<open>
  Stand-ins for the OpenCV routines, used where a statement is tried on a concrete run:
  three contours are found, of which the first has one point and the second is
  simplified to one vertex.
\<close>

definition cv_example :: opencv where
  "cv_example =
     \<lparr>cvtColor = (\<lambda>img. map (map fst) img),
      GaussianBlur = (\<lambda>g ksize sigma. g),
      Canny = (\<lambda>g lo hi. g),
      findContours = (\<lambda>g. [[(0, 0)], [(7, 7), (8, 7), (8, 8), (7, 8), (7, 6)], [(1, 1), (1, 5), (3, 5), (3, 1)]]),
      arcLength = (\<lambda>c closed. 12),
      approxPolyDP = (\<lambda>c eps closed. if length c = 5 then take 1 c else c)\<rparr>"

definition img_example :: image where
  "img_example = replicate 8 (replicate 8 (0, 0, 0))"

text \<open>The same routines finding one contour, the diagonal from \<open>(0, 0)\<close> to \<open>(3, 3)\<close>.\<close>

definition cv_diagonal :: opencv where
  "cv_diagonal = cv_example\<lparr>findContours := \<lambda>g. [[(0, 0), (3, 3)]]\<rparr>"

section \<open>Integers and floats as text\<close>

subsection \<open>\<open>str\<close> of an integer is its decimal numeral\<close>

lemma digit_cases: "0 \<le> d \<Longrightarrow> d < 10 \<Longrightarrow> d \<in> {0, 1, 2, 3, 4, 5, 6, 7, 8, 9 :: int}"
  by simp arith

lemma digit_val_digit_char: "0 \<le> d \<Longrightarrow> d < 10 \<Longrightarrow> digit_val (digit_char d) = nat d"
  using digit_cases [of d] by (auto simp: digit_val_def digit_char_def)

lemma is_digit_digit_char: "0 \<le> d \<Longrightarrow> d < 10 \<Longrightarrow> is_digit (digit_char d)"
  using digit_cases [of d] by (auto simp: is_digit_def digit_char_def)

lemma decimal_nat_snoc: "decimal_nat (s @ [c]) = 10 * decimal_nat s + digit_val c"
  by (simp add: decimal_nat_def)

lemma decimal_nat_str_nat: "0 \<le> n \<Longrightarrow> decimal_nat (str_nat n) = nat n"
proof (induction n rule: str_nat.induct)
  case (1 n)
  show ?case
  proof (cases "n < 10")
    case True
    with 1(2) show ?thesis
      by (simp add: str_nat.simps [of n] decimal_nat_def digit_val_digit_char)
  next
    case False
    then have IH: "decimal_nat (str_nat (n div 10)) = nat (n div 10)"
      using 1 by simp
    have nn: "0 \<le> n div 10" "0 \<le> n mod 10"
      using 1(2) by simp_all
    have "int (10 * nat (n div 10) + nat (n mod 10)) = 10 * (n div 10) + n mod 10"
      using nn by simp
    also have "\<dots> = n" by simp
    finally have "nat (int (10 * nat (n div 10) + nat (n mod 10))) = nat n"
      by (rule arg_cong)
    then have split: "10 * nat (n div 10) + nat (n mod 10) = nat n"
      by (simp only: nat_int)
    have "decimal_nat (str_nat n) = 10 * nat (n div 10) + nat (n mod 10)"
      using False by (simp add: str_nat.simps [of n] decimal_nat_snoc IH digit_val_digit_char)
    also note split
    finally show ?thesis .
  qed
qed

lemma str_nat_digits: "0 \<le> n \<Longrightarrow> str_nat n \<noteq> [] \<and> (\<forall>c \<in> set (str_nat n). is_digit c)"
proof (induction n rule: str_nat.induct)
  case (1 n)
  show ?case
  proof (cases "n < 10")
    case True
    with 1(2) show ?thesis
      by (simp add: str_nat.simps [of n] is_digit_digit_char)
  next
    case False
    then have "\<forall>c \<in> set (str_nat (n div 10)). is_digit c"
      using 1 by simp
    then show ?thesis
      using False by (simp add: str_nat.simps [of n] is_digit_digit_char)
  qed
qed

lemma is_digit_simps:
  "\<not> is_digit CHR ''-''" "\<not> is_digit CHR ''.''" "\<not> is_digit CHR ''e''"
  by (simp_all add: is_digit_def)

lemma decimal_int_str_int: "decimal_int (str_int n) = n"
proof (cases "n < 0")
  case True
  then show ?thesis
    by (simp add: str_int_def decimal_int_def decimal_nat_str_nat)
next
  case False
  then have n: "0 \<le> n" by simp
  from str_nat_digits [OF n] obtain c cs where s: "str_nat n = c # cs" and c: "is_digit c"
    by (cases "str_nat n") auto
  from c have "c \<noteq> CHR ''-''" using is_digit_simps(1) by auto
  then have "decimal_int (str_nat n) = int (decimal_nat (str_nat n))"
    by (simp add: decimal_int_def s)
  then show ?thesis
    using n False by (simp add: str_int_def decimal_nat_str_nat)
qed

lemma str_int_chars: "c \<in> set (str_int n) \<Longrightarrow> is_digit c \<or> c = CHR ''-''"
  using str_nat_digits [of n] str_nat_digits [of "- n"]
  by (auto simp: str_int_def split: if_splits)

subsection \<open>Rounding to binary64\<close>

lemma ipow_powi: "ipow b e = of_int b powi e"
  by (simp add: ipow_def power_int_def power_one_over inverse_eq_divide)

lemma ipow_pos: "0 < b \<Longrightarrow> 0 < ipow b e"
  by (simp add: ipow_powi)

lemma int_div_sandwich:
  assumes "0 < (b::int)"
  shows "b * (p div b) \<le> p" and "p < b * (p div b + 1)"
proof -
  have dm: "b * (p div b) + p mod b = p" by simp
  have "0 \<le> p mod b" "p mod b < b" using assms by simp_all
  with dm show "b * (p div b) \<le> p" by linarith
  have "b * (p div b + 1) = b * (p div b) + b" by (simp add: algebra_simps)
  with dm \<open>p mod b < b\<close> show "p < b * (p div b + 1)" by linarith
qed

lemma ndigits_bounds:
  "0 < p \<Longrightarrow> 1 < b \<Longrightarrow>
   1 \<le> ndigits b p \<and> b ^ nat (ndigits b p - 1) \<le> p \<and> p < b ^ nat (ndigits b p)"
proof (induction b p rule: ndigits.induct)
  case (1 b p)
  from 1(3) have b0: "0 < b" by simp
  show ?case
  proof (cases "0 < p div b")
    case False
    with 1(2,3) have "p < b"
      by (simp add: pos_imp_zdiv_pos_iff)
    moreover from this 1(2) have "p div b = 0" by simp
    then have "ndigits b p = 1"
      using 1(2,3) by (simp add: ndigits.simps [of b p] ndigits.simps [of b 0])
    ultimately show ?thesis using 1(2) by simp
  next
    case True
    let ?k = "ndigits b (p div b)"
    from 1(1) [OF _ True 1(3)] 1(2,3)
    have IH: "1 \<le> ?k" "b ^ nat (?k - 1) \<le> p div b" "p div b < b ^ nat ?k"
      by auto
    have k: "ndigits b p = ?k + 1"
      using 1(2,3) by (simp add: ndigits.simps [of b p])
    have nat_k: "nat ?k = Suc (nat (?k - 1))"
      using IH(1) by simp
    have lo: "b ^ nat ?k \<le> p"
    proof -
      have "b ^ nat ?k = b * b ^ nat (?k - 1)" by (simp add: nat_k)
      also have "\<dots> \<le> b * (p div b)" using IH(2) b0 by simp
      also have "\<dots> \<le> p" using b0 by (rule int_div_sandwich)
      finally show ?thesis .
    qed
    have hi: "p < b ^ nat (?k + 1)"
    proof -
      have "p < b * (p div b + 1)" using b0 by (rule int_div_sandwich)
      also have "\<dots> \<le> b * b ^ nat ?k"
        using IH(3) b0 by simp
      also have "\<dots> = b ^ nat (?k + 1)"
        using IH(1) by (simp add: nat_add_distrib)
      finally show ?thesis .
    qed
    show ?thesis
      using IH(1) lo hi by (simp add: k)
  qed
qed

lemma ilog_bounds:
  assumes "0 < q" and "1 < b"
  shows "ipow b (ilog b q) \<le> q \<and> q < ipow b (ilog b q + 1)"
proof (cases "1 \<le> q")
  case True
  let ?n = "\<lfloor>q\<rfloor>"
  from True have n: "0 < ?n" by simp
  from ndigits_bounds [OF n assms(2)]
  have nb: "1 \<le> ndigits b ?n" "b ^ nat (ndigits b ?n - 1) \<le> ?n" "?n < b ^ nat (ndigits b ?n)"
    by auto
  have k: "ilog b q = ndigits b ?n - 1" using True by (simp add: ilog_def)
  have "ipow b (ilog b q) = of_int (b ^ nat (ndigits b ?n - 1))"
    using nb(1) by (simp add: k ipow_def)
  also have "\<dots> \<le> of_int ?n" using nb(2) by (simp only: of_int_le_iff)
  also have "\<dots> \<le> q" by simp
  finally have lo: "ipow b (ilog b q) \<le> q" .
  have "?n + 1 \<le> b ^ nat (ndigits b ?n)" using nb(3) by simp
  then have "(of_int (?n + 1) :: rat) \<le> of_int (b ^ nat (ndigits b ?n))"
    by (simp only: of_int_le_iff)
  moreover have "q < of_int (?n + 1)" using floor_correct [of q] by simp
  ultimately have "q < of_int (b ^ nat (ndigits b ?n))" by simp
  also have "\<dots> = ipow b (ilog b q + 1)"
    using nb(1) by (simp add: k ipow_def)
  finally show ?thesis using lo by simp
next
  case False
  let ?y = "1 / q"
  let ?m = "\<lceil>?y\<rceil> - 1"
  from False assms(1) have y1: "1 < ?y" by simp
  then have m: "0 < ?m" by simp
  from ndigits_bounds [OF m assms(2)]
  have nb: "1 \<le> ndigits b ?m" "b ^ nat (ndigits b ?m - 1) \<le> ?m" "?m < b ^ nat (ndigits b ?m)"
    by auto
  let ?j = "ndigits b ?m"
  have k: "ilog b q = - ?j" using False by (simp add: ilog_def)
  have bpos: "0 < (of_int b :: rat)" using assms(2) by simp
  have "?y \<le> of_int \<lceil>?y\<rceil>" by simp
  also have "\<lceil>?y\<rceil> \<le> b ^ nat ?j" using nb(3) by simp
  then have "(of_int \<lceil>?y\<rceil> :: rat) \<le> of_int (b ^ nat ?j)" by (simp only: of_int_le_iff)
  finally have up: "?y \<le> of_int b ^ nat ?j" by simp
  have powpos: "0 < (of_int b :: rat) ^ n" for n using bpos by simp
  have lo: "ipow b (ilog b q) \<le> q"
  proof -
    have "ipow b (ilog b q) = 1 / of_int b ^ nat ?j"
      using nb(1) by (simp add: k ipow_def)
    also have "\<dots> \<le> q"
      using up assms(1) powpos [of "nat ?j"] by (simp add: field_simps)
    finally show ?thesis .
  qed
  have "of_int (b ^ nat (?j - 1)) \<le> (of_int ?m :: rat)" using nb(2) by (simp only: of_int_le_iff)
  moreover have "of_int ?m < ?y" 
    using ceiling_correct [of ?y] by simp
  ultimately have dn: "of_int b ^ nat (?j - 1) < ?y" by simp
  have hi: "q < ipow b (ilog b q + 1)"
  proof (cases "?j = 1")
    case True
    then show ?thesis using False by (simp add: k ipow_def)
  next
    case F: False
    with nb(1) have "ipow b (ilog b q + 1) = 1 / of_int b ^ nat (?j - 1)"
      by (simp add: k ipow_def)
    moreover have "q < 1 / of_int b ^ nat (?j - 1)"
      using dn assms(1) powpos [of "nat (?j - 1)"] by (simp add: field_simps)
    ultimately show ?thesis by simp
  qed
  from lo hi show ?thesis ..
qed

lemma round_half_even_error: "\<bar>of_int (round_half_even x) - x\<bar> \<le> 1 / 2"
proof -
  define f where "f = \<lfloor>x\<rfloor>"
  define r where "r = x - of_int f"
  have r: "0 \<le> r" "r < 1"
    using floor_correct [of x] by (simp_all add: r_def f_def)
  have "\<bar>of_int (tie_to_even f r) - (of_int f + r)\<bar> \<le> 1 / 2"
    using r by (simp add: tie_to_even_def abs_if)
  moreover have "of_int f + r = x" by (simp add: r_def)
  ultimately show ?thesis
    by (simp add: round_half_even_def f_def [symmetric] r_def [symmetric])
qed

lemma round_half_even_of_int: "round_half_even (of_int n) = n"
  by (simp add: round_half_even_def tie_to_even_def)

lemma round_to_error:
  assumes "0 < u"
  shows "\<bar>round_to u q - q\<bar> \<le> u / 2"
proof -
  have "round_to u q - q = (of_int (round_half_even (q / u)) - q / u) * u"
    using assms by (simp add: round_to_def algebra_simps)
  then have "\<bar>round_to u q - q\<bar> = \<bar>of_int (round_half_even (q / u)) - q / u\<bar> * u"
    using assms by (simp add: abs_mult)
  also have "\<dots> \<le> 1 / 2 * u"
    using round_half_even_error [of "q / u"] assms by (intro mult_right_mono) simp_all
  finally show ?thesis by simp
qed

lemma ipow_add: "b \<noteq> 0 \<Longrightarrow> ipow b (i + j) = ipow b i * ipow b j"
  by (simp add: ipow_powi power_int_add)

lemma ipow_less_cancel:
  assumes "1 < b" and "ipow b i < ipow b j"
  shows "i < j"
proof (rule ccontr)
  assume "\<not> i < j"
  then have "j \<le> i" by simp
  moreover have "1 \<le> (of_int b :: rat)" using assms(1) by simp
  ultimately have "ipow b j \<le> ipow b i"
    unfolding ipow_powi by (rule power_int_increasing)
  with assms(2) show False by simp
qed

lemma ipow_le_cancel:
  assumes "1 < b" and "ipow b i \<le> ipow b j"
  shows "i \<le> j"
proof (rule ccontr)
  assume "\<not> i \<le> j"
  then have "j < i" by simp
  moreover have "1 < (of_int b :: rat)" using assms(1) by simp
  ultimately have "ipow b j < ipow b i"
    unfolding ipow_powi by (rule power_int_strict_increasing)
  with assms(2) show False by simp
qed

lemma ipow_mono: "1 < b \<Longrightarrow> i \<le> j \<Longrightarrow> ipow b i \<le> ipow b j"
  unfolding ipow_powi by (rule power_int_increasing) simp_all

lemma ipow_nat: "0 \<le> e \<Longrightarrow> ipow b e = of_int (b ^ nat e)"
  by (simp add: ipow_def)

lemma round_double_error:
  assumes "ipow 2 (- 1022) \<le> \<bar>q\<bar>"
  shows "\<bar>round_double q - q\<bar> \<le> \<bar>q\<bar> / 2 ^ 53"
proof -
  have p0: "0 < ipow 2 (- 1022)" by (rule ipow_pos) simp
  with assms have q0: "q \<noteq> 0" "0 < \<bar>q\<bar>" by auto
  let ?e = "ilog 2 \<bar>q\<bar>"
  from ilog_bounds [OF q0(2), of 2]
  have eb: "ipow 2 ?e \<le> \<bar>q\<bar>" "\<bar>q\<bar> < ipow 2 (?e + 1)" by simp_all
  from assms eb(2) have "ipow 2 (- 1022) < ipow 2 (?e + 1)" by simp
  then have "- 1022 < ?e + 1" by (rule ipow_less_cancel [rotated]) simp
  then have mx: "max ?e (- 1022) = ?e" by simp
  have rd: "round_double q = round_to (ipow 2 (?e - 52)) q"
    using q0(1) by (simp add: round_double_def mx)
  have u: "ipow 2 (?e - 52) = ipow 2 ?e * ipow 2 (- 52)"
    using ipow_add [of 2 ?e "- 52"] by simp
  have "\<bar>round_double q - q\<bar> \<le> ipow 2 (?e - 52) / 2"
    unfolding rd by (rule round_to_error) (simp add: ipow_pos)
  also have "\<dots> = ipow 2 ?e / 2 ^ 53"
    by (simp add: u) (simp add: ipow_def)
  also have "\<dots> \<le> \<bar>q\<bar> / 2 ^ 53"
    using eb(1) by (simp add: divide_right_mono)
  finally show ?thesis .
qed

lemma round_double_of_int:
  assumes "\<bar>n\<bar> \<le> 2 ^ 53"
  shows "round_double (of_int n) = of_int n"
proof (cases "n = 0")
  case True
  then show ?thesis by (simp add: round_double_def)
next
  case False
  let ?q = "of_int n :: rat"
  let ?e = "ilog 2 \<bar>?q\<bar>"
  from False have q0: "0 < \<bar>?q\<bar>" by simp
  from ilog_bounds [OF q0, of 2]
  have eb: "ipow 2 ?e \<le> \<bar>?q\<bar>" "\<bar>?q\<bar> < ipow 2 (?e + 1)" by simp_all
  from False have "1 \<le> \<bar>n\<bar>" by simp
  then have "(1::rat) \<le> \<bar>?q\<bar>" by (metis of_int_1 of_int_abs of_int_le_iff)
  with eb(2) have "ipow 2 0 < ipow 2 (?e + 1)" by (simp add: ipow_def)
  then have "0 < ?e + 1" by (rule ipow_less_cancel [rotated]) simp
  then have e0: "0 \<le> ?e" by simp
  then have mx: "max ?e (- 1022) = ?e" by simp
  have rd: "round_double ?q = round_to (ipow 2 (?e - 52)) ?q"
    using False by (simp add: round_double_def mx)
  show ?thesis
  proof (cases "?e \<le> 52")
    case True
    then have u: "ipow 2 (?e - 52) = 1 / 2 ^ nat (52 - ?e)"
      by (cases "?e = 52") (simp_all add: ipow_def)
    have "?q / ipow 2 (?e - 52) = of_int (n * 2 ^ nat (52 - ?e))"
      by (simp add: u)
    then have "round_half_even (?q / ipow 2 (?e - 52)) = n * 2 ^ nat (52 - ?e)"
      by (simp only: round_half_even_of_int)
    then show ?thesis
      unfolding rd round_to_def by (simp add: u)
  next
    case F: False
    have "ipow 2 53 \<le> ipow 2 ?e"
      using F by (intro ipow_mono) simp_all
    with eb(1) have "ipow 2 53 \<le> \<bar>?q\<bar>" by simp
    then have "(of_int (2 ^ 53) :: rat) \<le> of_int \<bar>n\<bar>" by (simp add: ipow_def)
    then have "2 ^ 53 \<le> \<bar>n\<bar>" by (simp only: of_int_le_iff)
    with assms have n: "\<bar>n\<bar> = 2 ^ 53" by simp
    then have "\<bar>?q\<bar> = ipow 2 53" by (simp add: ipow_def)
    with eb(2) have "ipow 2 53 < ipow 2 (?e + 1)" by simp
    then have "53 < ?e + 1" by (rule ipow_less_cancel [rotated]) simp
    moreover have "ipow 2 ?e \<le> ipow 2 53" using eb(1) \<open>\<bar>?q\<bar> = ipow 2 53\<close> by simp
    then have "?e \<le> 53" by (rule ipow_le_cancel [rotated]) simp
    ultimately have e: "?e = 53" by simp
    have u: "ipow 2 (?e - 52) = 2" by (simp add: e ipow_def)
    from n have "even n" by (metis even_abs_add_iff even_add even_numeral even_power zero_less_numeral)
    then obtain m where m: "n = 2 * m" by (elim evenE)
    have "round_half_even (?q / 2) = m"
      using round_half_even_of_int [of m] by (simp add: m)
    then show ?thesis
      unfolding rd round_to_def u by (simp add: m)
  qed
qed

lemma float_of_int_exact: "\<bar>n\<bar> \<le> 2 ^ 53 \<Longrightarrow> float_of_int n = of_int n"
  unfolding float_of_int_def by (rule round_double_of_int)

subsection \<open>\<open>repr\<close> of a float is never the text of an integer\<close>

lemma layout_digits_marked:
  "CHR ''.'' \<in> set (layout_digits ds decpt) \<or> CHR ''e'' \<in> set (layout_digits ds decpt)"
  by (simp add: layout_digits_def str_exponent_def)

lemma float_repr_marked: "CHR ''.'' \<in> set (float_repr v) \<or> CHR ''e'' \<in> set (float_repr v)"
proof (cases "v = 0")
  case True
  then show ?thesis by (simp add: float_repr_def)
next
  case False
  obtain n s where ns: "shortest_digits \<bar>v\<bar> 1 = (n, s)" by (cases "shortest_digits \<bar>v\<bar> 1")
  have "float_repr v = (if v < 0 then ''-'' else []) @ layout_number (str_nat n) s"
    using False ns by (simp add: float_repr_def)
  then show ?thesis
    using layout_digits_marked [of "strip_zeros (str_nat n)" "s + int (length (str_nat n))"]
    by (auto simp: layout_number_def)
qed

lemma float_repr_not_int: "float_repr v \<noteq> str_int n"
proof
  assume eq: "float_repr v = str_int n"
  from float_repr_marked [of v] obtain c where c: "c \<in> set (float_repr v)" "c = CHR ''.'' \<or> c = CHR ''e''"
    by auto
  from c(1) have "is_digit c \<or> c = CHR ''-''" unfolding eq by (rule str_int_chars)
  with c(2) show False using is_digit_simps by auto
qed

section \<open>The loops\<close>

lemma foldl_snoc_map: "foldl (\<lambda>acc i. acc @ [f i]) acc xs = acc @ map f xs"
  by (induction xs arbitrary: acc) simp_all

lemma polygon_equations_eq:
  "polygon_equations H approx lines = lines @ map (segment_at H approx) [0..<length approx]"
  unfolding polygon_equations_def segment_at_def by (rule foldl_snoc_map)

lemma contour_loop_acc:
  "contour_loop cv H k cs lines = lines @ contour_loop cv H k cs []"
proof (induction cs arbitrary: lines)
  case Nil
  show ?case by simp
next
  case (Cons c cs)
  let ?approx = "approxPolyDP cv c (fmul k (arcLength cv c True)) True"
  show ?case
    using Cons.IH [of lines] Cons.IH [of "polygon_equations H ?approx lines"]
      Cons.IH [of "polygon_equations H ?approx []"]
    by (simp add: Let_def polygon_equations_eq)
qed

lemma contour_loop_append:
  "contour_loop cv H k (cs1 @ cs2) lines = contour_loop cv H k cs2 (contour_loop cv H k cs1 lines)"
  by (induction cs1 arbitrary: lines) (simp_all add: Let_def)

section \<open>Segments on an axis\<close>

lemma segment_vertical:
  "fst p2 - fst p1 = 0 \<Longrightarrow>
   segment_equation H p1 p2 =
     range_text ''x'' (str_int (fst p1))
       (str_int (H - max (snd p1) (snd p2))) (str_int (H - min (snd p1) (snd p2)))"
  by (simp add: segment_equation_def range_text_def Let_def)

lemma segment_horizontal:
  "fst p2 - fst p1 \<noteq> 0 \<Longrightarrow> snd p2 - snd p1 = 0 \<Longrightarrow>
   segment_equation H p1 p2 =
     range_text ''y'' (str_int (H - snd p1))
       (str_int (min (fst p1) (fst p2))) (str_int (max (fst p1) (fst p2)))"
  by (simp add: segment_equation_def range_text_def Let_def)

lemma flip_max: "(H::int) - max a b = min (H - a) (H - b)"
  by (simp add: min_def max_def)

lemma flip_min: "(H::int) - min a b = max (H - a) (H - b)"
  by (simp add: min_def max_def)

lemmas str_small = str_int_def str_nat.simps digit_char_def

text \<open>
  Claim C3. In an image of height \<open>H\<close>, a segment with \<open>p2.x - p1.x = 0\<close> is written as the
  vertical line \<open>x = p1.x\<close> over the range from \<open>min (H - p1.y) (H - p2.y)\<close> to
  \<open>max (H - p1.y) (H - p2.y)\<close>; otherwise, a segment with \<open>p2.y - p1.y = 0\<close> is written as
  the horizontal line \<open>y = H - p1.y\<close> over the range from \<open>min p1.x p2.x\<close> to
  \<open>max p1.x p2.x\<close>.
\<close>

theorem axis_aligned_segment:
  "(fst p2 - fst p1 = 0 \<longrightarrow>
      segment_equation H p1 p2 =
        spec_render (VerticalLine (fst p1)
          (min (H - snd p1) (H - snd p2)) (max (H - snd p1) (H - snd p2)))) \<and>
   (fst p2 - fst p1 \<noteq> 0 \<and> snd p2 - snd p1 = 0 \<longrightarrow>
      segment_equation H p1 p2 =
        spec_render (HorizontalLine (H - snd p1) (min (fst p1) (fst p2)) (max (fst p1) (fst p2))))"
  by (simp add: segment_vertical segment_horizontal flip_max flip_min)

theorem axis_aligned_segment_witness:
  "segment_equation 10 (2, 3) (2, 7) = spec_render (VerticalLine 2 3 7) \<and>
   spec_render (VerticalLine 2 3 7) =
     ''x = 2 '' @ [backslash] @ ''left'' @ [backslash] @ ''{3 <= y <= 7'' @
     [backslash] @ ''right'' @ [backslash] @ ''}'' \<and>
   segment_equation 10 (5, 3) (2, 3) = spec_render (HorizontalLine 7 2 5) \<and>
   spec_render (HorizontalLine 7 2 5) =
     ''y = 7 '' @ [backslash] @ ''left'' @ [backslash] @ ''{2 <= x <= 5'' @
     [backslash] @ ''right'' @ [backslash] @ ''}''"
  using axis_aligned_segment [of "(2, 7)" "(2, 3)" 10] axis_aligned_segment [of "(2, 3)" "(5, 3)" 10]
  by (simp add: range_text_def str_small)

section \<open>Degenerate segments and the segments of a polygon\<close>

lemma segment_equation_hd:
  "segment_equation H p1 p2 \<noteq> [] \<and>
   hd (segment_equation H p1 p2) \<in> {CHR ''x'', CHR ''y'', CHR ''(''}"
  by (simp add: segment_equation_def Let_def split: prod.split)

lemma range_text_hd: "axis \<noteq> [] \<Longrightarrow> hd (range_text axis v lo hi) = hd axis"
  by (simp add: range_text_def)

text \<open>
  Claim C5. A degenerate segment, with \<open>dx = 0\<close> and \<open>dy = 0\<close>, is written as a vertical line,
  the vertical test coming first, and its range has equal ends; it is not written as a
  horizontal line.
\<close>

theorem degenerate_segment_is_vertical:
  assumes "fst p2 - fst p1 = 0" and "snd p2 - snd p1 = 0"
  shows "segment_equation H p1 p2 = spec_render (VerticalLine (fst p1) (H - snd p1) (H - snd p1)) \<and>
         (\<forall>y x0 x1. segment_equation H p1 p2 \<noteq> spec_render (HorizontalLine y x0 x1))"
proof -
  from assms have y: "snd p2 = snd p1" by simp
  have v: "segment_equation H p1 p2 = spec_render (VerticalLine (fst p1) (H - snd p1) (H - snd p1))"
    using assms(1) by (simp add: segment_vertical y)
  have hx: "hd (segment_equation H p1 p2) = CHR ''x''"
    by (simp add: v range_text_hd)
  have hy: "hd (spec_render (HorizontalLine y x0 x1)) = CHR ''y''" for y x0 x1
    by (simp add: range_text_hd)
  have "segment_equation H p1 p2 \<noteq> spec_render (HorizontalLine y x0 x1)" for y x0 x1
  proof
    assume "segment_equation H p1 p2 = spec_render (HorizontalLine y x0 x1)"
    then have "hd (segment_equation H p1 p2) = hd (spec_render (HorizontalLine y x0 x1))"
      by (rule arg_cong)
    then show False
      unfolding hx hy by simp
  qed
  with v show ?thesis by blast
qed

theorem degenerate_segment_is_vertical_witness:
  "segment_equation 10 (4, 6) (4, 6) = spec_render (VerticalLine 4 4 4) \<and>
   spec_render (VerticalLine 4 4 4) =
     ''x = 4 '' @ [backslash] @ ''left'' @ [backslash] @ ''{4 <= y <= 4'' @
     [backslash] @ ''right'' @ [backslash] @ ''}'' \<and>
   (\<forall>y x0 x1. segment_equation 10 (4, 6) (4, 6) \<noteq> spec_render (HorizontalLine y x0 x1))"
  using degenerate_segment_is_vertical [of "(4, 6)" "(4, 6)" 10]
  by (simp add: range_text_def str_small)

lemma segment_at_last:
  assumes "approx \<noteq> []"
  shows "segment_at H approx (length approx - 1) = segment_equation H (last approx) (hd approx)"
proof -
  from assms have "0 < length approx" by simp
  then have "(length approx - 1 + 1) mod length approx = 0" by simp
  then show ?thesis
    using assms by (simp add: segment_at_def last_conv_nth hd_conv_nth)
qed

text \<open>
  Claim C6. A simplified polygon with \<open>V \<ge> 2\<close> vertices contributes exactly \<open>V\<close> lines, one
  for each pair of consecutive vertices, the last being the pair of the last vertex and
  the first.
\<close>

theorem polygon_segment_count:
  assumes "2 \<le> length approx"
  shows "length (polygon_equations H approx []) = length approx \<and>
         (\<forall>i < length approx.
            polygon_equations H approx [] ! i =
              segment_equation H (approx ! i) (approx ! ((i + 1) mod length approx))) \<and>
         polygon_equations H approx [] ! (length approx - 1) =
           segment_equation H (last approx) (hd approx) \<and>
         (2 \<le> length c \<and> approxPolyDP cv c (fmul k (arcLength cv c True)) True = approx \<longrightarrow>
            contour_loop cv H k [c] lines = lines @ polygon_equations H approx [])"
proof -
  from assms have ne: "approx \<noteq> []" by auto
  have len: "length (polygon_equations H approx []) = length approx"
    by (simp add: polygon_equations_eq)
  have nth: "polygon_equations H approx [] ! i = segment_at H approx i" if "i < length approx" for i
    using that by (simp add: polygon_equations_eq)
  have lst: "polygon_equations H approx [] ! (length approx - 1) =
      segment_equation H (last approx) (hd approx)"
    using ne nth [of "length approx - 1"] segment_at_last [OF ne, of H] by simp
  have loop: "contour_loop cv H k [c] lines = lines @ polygon_equations H approx []"
    if "2 \<le> length c" and "approxPolyDP cv c (fmul k (arcLength cv c True)) True = approx"
    using that assms by (simp add: Let_def polygon_equations_eq)
  from len nth lst loop show ?thesis
    by (simp add: segment_at_def)
qed

theorem polygon_segment_count_witness:
  "length (polygon_equations 8 [(1, 1), (1, 5), (3, 5), (3, 1)] []) = 4 \<and>
   polygon_equations 8 [(1, 1), (1, 5), (3, 5), (3, 1)] [] ! 3 = segment_equation 8 (3, 1) (1, 1) \<and>
   contour_loop cv_example 8 (1 / 500) [[(1, 1), (1, 5), (3, 5), (3, 1)]] [] =
     polygon_equations 8 [(1, 1), (1, 5), (3, 5), (3, 1)] []"
  using polygon_segment_count [of "[(1, 1), (1, 5), (3, 5), (3, 1)]" 8 "[(1, 1), (1, 5), (3, 5), (3, 1)]"
      cv_example "1 / 500" "[]"]
  by (simp add: cv_example_def)

section \<open>Skipped contours\<close>

lemma set_polygon_equations:
  "set (polygon_equations H approx []) = segment_at H approx ` {0..<length approx}"
  by (simp add: polygon_equations_eq)

lemma contour_loop_Cons:
  "contour_loop cv H k (c # cs) [] =
     (if length c < 2 \<or> length (approxPolyDP cv c (fmul k (arcLength cv c True)) True) < 2 then []
      else polygon_equations H (approxPolyDP cv c (fmul k (arcLength cv c True)) True) []) @
     contour_loop cv H k cs []"
  using contour_loop_acc [of cv H k cs
      "polygon_equations H (approxPolyDP cv c (fmul k (arcLength cv c True)) True) []"]
  by (simp add: Let_def)

lemma contour_loop_lines_hd:
  "l \<in> set (contour_loop cv H k cs []) \<Longrightarrow>
   l \<noteq> [] \<and> hd l \<in> {CHR ''x'', CHR ''y'', CHR ''(''}"
proof (induction cs)
  case Nil
  then show ?case by simp
next
  case (Cons c cs)
  from Cons.prems consider
      (here) i where "l = segment_at H (approxPolyDP cv c (fmul k (arcLength cv c True)) True) i"
    | (later) "l \<in> set (contour_loop cv H k cs [])"
    unfolding contour_loop_Cons by (auto simp: set_polygon_equations split: if_splits)
  then show ?case
  proof cases
    case here
    then show ?thesis
      unfolding segment_at_def by (simp only: segment_equation_hd simp_thms)
  next
    case later
    then show ?thesis by (rule Cons.IH)
  qed
qed

lemma join_lines_hd: "l \<noteq> [] \<Longrightarrow> hd (join_lines (l # ls)) = hd l"
  by (cases ls) simp_all

lemma join_lines_not_fallback:
  assumes "ls \<noteq> []" and "\<forall>l \<in> set ls. l \<noteq> [] \<and> hd l \<in> {CHR ''x'', CHR ''y'', CHR ''(''}"
  shows "join_lines ls \<noteq> fallback_line"
proof
  assume eq: "join_lines ls = fallback_line"
  from assms(1) obtain l rest where ls: "ls = l # rest" by (cases ls) auto
  with assms(2) have l: "l \<noteq> []" "hd l \<in> {CHR ''x'', CHR ''y'', CHR ''(''}" by auto
  have "hd (join_lines ls) = hd l"
    using l(1) unfolding ls by (rule join_lines_hd)
  moreover have "hd fallback_line = CHR ''#''"
    by (simp add: fallback_line_def)
  ultimately show False
    using l(2) eq by auto
qed

lemma equation_lines_example:
  "equation_lines cv_example img_example (1 / 500) =
     [spec_render (VerticalLine 1 3 7), spec_render (HorizontalLine 3 1 3),
      spec_render (VerticalLine 3 3 7), spec_render (HorizontalLine 7 1 3)]"
  by (simp add: equation_lines_def detect_contours_def cv_example_def img_example_def
      polygon_equations_eq segment_at_def upt_rec segment_vertical segment_horizontal)

text \<open>
  Claim C9. A contour with fewer than two points, or whose simplification has fewer than
  two vertices, contributes no line; the lines of the contours before and after it are
  what they are without it, and the run returns a text, not an error.
\<close>

theorem degenerate_contour_skipped:
  assumes "length c < 2 \<or> length (approxPolyDP cv c (fmul k (arcLength cv c True)) True) < 2"
  shows "contour_loop cv H k [c] [] = [] \<and>
         contour_loop cv H k (cs1 @ c # cs2) lines = contour_loop cv H k (cs1 @ cs2) lines \<and>
         (detect_contours cv img = cs1 @ c # cs2 \<longrightarrow>
            image_to_equations cv (Some img) k =
              (let ls = contour_loop cv (int (length img)) k (cs1 @ cs2) []
               in if ls = [] then Inr fallback_line else Inr (join_lines ls)))"
proof -
  have one: "contour_loop cv H' k (c # cs) ls = contour_loop cv H' k cs ls" for H' cs ls
    using assms by (auto simp: Let_def)
  have skip: "contour_loop cv H' k (cs1 @ c # cs2) ls = contour_loop cv H' k (cs1 @ cs2) ls" for H' ls
    unfolding contour_loop_append one ..
  have "contour_loop cv H k [c] [] = contour_loop cv H k [] []"
    by (rule one)
  then have "contour_loop cv H k [c] [] = []"
    by simp
  moreover have "image_to_equations cv (Some img) k =
      (let ls = contour_loop cv (int (length img)) k (cs1 @ cs2) []
       in if ls = [] then Inr fallback_line else Inr (join_lines ls))"
    if "detect_contours cv img = cs1 @ c # cs2"
    using skip [of "int (length img)" "[]"]
    by (simp add: image_to_equations_def equation_lines_def that Let_def)
  ultimately show ?thesis
    using skip by blast
qed

theorem degenerate_contour_skipped_witness:
  "contour_loop cv_example 8 (1 / 500) [[(0, 0)]] [] = [] \<and>
   contour_loop cv_example 8 (1 / 500) [[(7, 7), (8, 7), (8, 8), (7, 8), (7, 6)]] [] = [] \<and>
   contour_loop cv_example 8 (1 / 500)
     [[(0, 0)], [(7, 7), (8, 7), (8, 8), (7, 8), (7, 6)], [(1, 1), (1, 5), (3, 5), (3, 1)]] [] =
   contour_loop cv_example 8 (1 / 500) [[(1, 1), (1, 5), (3, 5), (3, 1)]] []"
proof -
  let ?c1 = "[(0, 0)] :: contour"
  let ?c2 = "[(7, 7), (8, 7), (8, 8), (7, 8), (7, 6)] :: contour"
  let ?c3 = "[(1, 1), (1, 5), (3, 5), (3, 1)] :: contour"
  have a: "length ?c1 < 2 \<or> length (approxPolyDP cv_example ?c1 (fmul (1 / 500) (arcLength cv_example ?c1 True)) True) < 2"
    by simp
  have b: "length ?c2 < 2 \<or> length (approxPolyDP cv_example ?c2 (fmul (1 / 500) (arcLength cv_example ?c2 True)) True) < 2"
    by (simp add: cv_example_def)
  show ?thesis
    using degenerate_contour_skipped [OF a, of 8 "[]" "[?c2, ?c3]" "[]"]
      degenerate_contour_skipped [OF b, of 8 "[]" "[?c3]" "[]"]
    by simp
qed

section \<open>Segments off the axes\<close>

lemma segment_curve:
  "fst p2 - fst p1 \<noteq> 0 \<Longrightarrow> snd p2 - snd p1 \<noteq> 0 \<Longrightarrow>
   segment_equation H p1 p2 = curve_text (curve_coefficients H p1 p2)"
  by (simp add: segment_equation_def bezier_to_equations_def curve_coefficients_def blend_text_def Let_def)

subsection \<open>Evaluating the float model\<close>

text \<open>
  The simplifier evaluates the rounding and the search for the shortest digits on
  numerals, given the floor and ceiling of a quotient of numerals.
\<close>

lemma floor_rat_numeral: "\<lfloor>numeral a / numeral b :: rat\<rfloor> = numeral a div numeral b"
  by (metis floor_divide_of_int_eq of_int_numeral)

lemma floor_rat_one_numeral: "\<lfloor>1 / numeral b :: rat\<rfloor> = 1 div numeral b"
  by (metis floor_divide_of_int_eq of_int_numeral of_int_1)

lemma ceiling_rat_numeral: "\<lceil>numeral a / numeral b :: rat\<rceil> = - (- numeral a div numeral b)"
  unfolding ceiling_def
  by (metis floor_divide_of_int_eq of_int_numeral of_int_minus divide_minus_left)

lemma ceiling_rat_one_numeral: "\<lceil>1 / numeral b :: rat\<rceil> = - (- 1 div numeral b)"
  unfolding ceiling_def
  by (metis floor_divide_of_int_eq of_int_numeral of_int_minus divide_minus_left of_int_1)

lemma replicate_numeral_unfold: "replicate (numeral v) x = x # replicate (numeral v - 1) x"
  by (simp add: numeral_eq_Suc)

lemmas round_eval = round_double_def round_to_def tie_to_even_def ilog_def ndigits.simps ipow_def
  round_half_even_def floor_rat_numeral ceiling_rat_numeral ceiling_rat_one_numeral
  floor_rat_one_numeral float_of_int_def fdiv_def fsub_def fmul_def

lemmas repr_eval = float_repr_def layout_number_def shortest_digits.simps repr_try_def repr_at_def
  repr_scaled_def repr_between_def repr_choose_def repr_17_def str_nat.simps digit_char_def
  strip_zeros_def layout_digits_def str_exponent_def replicate_numeral_unfold

lemma repr_small_integers:
  "float_repr 0 = ''0.0''" "float_repr 1 = ''1.0''" "float_repr 2 = ''2.0''"
  "float_repr 3 = ''3.0''" "float_repr 5 = ''5.0''" "float_repr 6 = ''6.0''"
  "float_repr 7 = ''7.0''" "float_repr 8 = ''8.0''" "float_repr 10 = ''10.0''"
  "float_repr 20 = ''20.0''"
  by (simp_all add: round_eval repr_eval)

lemma repr_third_of_10: "float_repr (7505999378950827 / 2251799813685248) = ''3.3333333333333335''"
  by (simp add: round_eval repr_eval)

lemma repr_two_thirds_of_10: "float_repr (7505999378950827 / 1125899906842624) = ''6.666666666666667''"
  by (simp add: round_eval repr_eval)

lemma repr_20_less_third: "float_repr (4691249611844267 / 281474976710656) = ''16.666666666666668''"
  by (simp add: round_eval repr_eval)

lemma repr_20_less_two_thirds: "float_repr (3752999689475413 / 281474976710656) = ''13.333333333333332''"
  by (simp add: round_eval repr_eval)

lemma coefficients_diag_up: "curve_coefficients 8 (0, 0) (3, 3) = ((0, 1, 2, 3), (8, 7, 6, 5))"
  by (simp add: curve_coefficients_def Let_def round_eval)

lemma coefficients_diag_down: "curve_coefficients 8 (3, 3) (0, 0) = ((3, 2, 1, 0), (5, 6, 7, 8))"
  by (simp add: curve_coefficients_def Let_def round_eval)

lemma coefficients_0_10:
  "curve_coefficients 20 (0, 0) (10, 10) =
     ((0, 7505999378950827 / 2251799813685248, 7505999378950827 / 1125899906842624, 10),
      (20, 4691249611844267 / 281474976710656, 3752999689475413 / 281474976710656, 10))"
  by (simp add: curve_coefficients_def Let_def round_eval)

subsection \<open>Control points\<close>

lemma third_exact:
  "of_int a + (of_int b - of_int a) / 3 = (of_int (2 * a + b) :: rat) / 3"
  "of_int a + 2 * (of_int b - of_int a) / 3 = (of_int (a + 2 * b) :: rat) / 3"
  by (simp_all add: field_simps)

lemma round_double_third_error:
  "\<bar>round_double (of_int m / 3) - of_int m / 3\<bar> \<le> \<bar>of_int m / 3\<bar> / 2 ^ 53"
proof (cases "m = 0")
  case True
  then show ?thesis by (simp add: round_double_def)
next
  case False
  then have "1 \<le> \<bar>m\<bar>" by simp
  then have "(1::rat) \<le> \<bar>of_int m\<bar>" by (metis of_int_1 of_int_abs of_int_le_iff)
  then have "(1::rat) / 3 \<le> \<bar>of_int m / 3\<bar>" by simp
  moreover have "ipow 2 (- 1022) \<le> ipow 2 (- 2)" by (rule ipow_mono) simp_all
  moreover have "ipow 2 (- 2) \<le> 1 / 3" by (simp add: ipow_def)
  ultimately have "ipow 2 (- 1022) \<le> \<bar>of_int m / 3\<bar>" by linarith
  then show ?thesis by (rule round_double_error)
qed

lemma rounds_to_third:
  assumes "\<bar>m\<bar> \<le> 2 ^ 53"
  shows "rounds_to (of_int m / 3) (fdiv (float_of_int m) 3)"
  using assms round_double_third_error [of m]
  by (simp add: rounds_to_def fdiv_def float_of_int_exact)

lemma int32_sums:
  assumes "\<bar>a\<bar> \<le> 2 ^ 31" and "\<bar>b\<bar> \<le> (2 ^ 31 :: int)"
  shows "\<bar>a\<bar> \<le> 2 ^ 53" "\<bar>2 * a + b\<bar> \<le> 2 ^ 53" "\<bar>a + 2 * b\<bar> \<le> 2 ^ 53" "\<bar>a - b\<bar> \<le> 2 ^ 53"
  using assms by simp_all

text \<open>
  Claim C4, as amended. A segment with \<open>dx \<noteq> 0\<close> and \<open>dy \<noteq> 0\<close>, its coordinates and the
  image height within 32 bits, is written as one curve. Its control points are the
  binary64 roundings of \<open>p1 + (p2 - p1) / 3\<close> and \<open>p1 + 2 (p2 - p1) / 3\<close>, each within the
  relative error \<open>2 ^ - 53\<close> of the exact third; the \<open>x\<close> polynomial has the coefficients
  \<open>p1.x\<close>, \<open>c1.x\<close>, \<open>c2.x\<close>, \<open>p2.x\<close>, and the \<open>y\<close> polynomial has the flipped ones \<open>H - p1.y\<close>,
  \<open>H - c1.y\<close> and \<open>H - c2.y\<close> rounded again, \<open>H - p2.y\<close>.
\<close>

theorem curve_segment_control_points:
  assumes "fst p2 - fst p1 \<noteq> 0" and "snd p2 - snd p1 \<noteq> 0"
    and "\<bar>fst p1\<bar> \<le> 2 ^ 31" and "\<bar>snd p1\<bar> \<le> 2 ^ 31"
    and "\<bar>fst p2\<bar> \<le> 2 ^ 31" and "\<bar>snd p2\<bar> \<le> 2 ^ 31"
    and "\<bar>H\<bar> \<le> 2 ^ 31"
  shows "\<exists>c1x c2x c1y c2y.
           rounds_to (of_int (fst p1) + (of_int (fst p2) - of_int (fst p1)) / 3) c1x \<and>
           rounds_to (of_int (fst p1) + 2 * (of_int (fst p2) - of_int (fst p1)) / 3) c2x \<and>
           rounds_to (of_int (snd p1) + (of_int (snd p2) - of_int (snd p1)) / 3) c1y \<and>
           rounds_to (of_int (snd p1) + 2 * (of_int (snd p2) - of_int (snd p1)) / 3) c2y \<and>
           segment_equation H p1 p2 =
             curve_text
               ((of_int (fst p1), c1x, c2x, of_int (fst p2)),
                (of_int (H - snd p1), round_double (of_int H - c1y),
                 round_double (of_int H - c2y), of_int (H - snd p2)))"
proof -
  let ?c1x = "fdiv (float_of_int (2 * fst p1 + fst p2)) 3"
  let ?c2x = "fdiv (float_of_int (fst p1 + 2 * fst p2)) 3"
  let ?c1y = "fdiv (float_of_int (2 * snd p1 + snd p2)) 3"
  let ?c2y = "fdiv (float_of_int (snd p1 + 2 * snd p2)) 3"
  note x = int32_sums [OF assms(3) assms(5)] int32_sums [OF assms(5) assms(3)]
  note y = int32_sums [OF assms(4) assms(6)] int32_sums [OF assms(6) assms(4)]
  note h = int32_sums [OF assms(7) assms(4)] int32_sums [OF assms(7) assms(6)]
  have "rounds_to (of_int (fst p1) + (of_int (fst p2) - of_int (fst p1)) / 3) ?c1x"
    using rounds_to_third [OF x(2)] by (simp only: third_exact)
  moreover have "rounds_to (of_int (fst p1) + 2 * (of_int (fst p2) - of_int (fst p1)) / 3) ?c2x"
    using rounds_to_third [OF x(3)] by (simp only: third_exact)
  moreover have "rounds_to (of_int (snd p1) + (of_int (snd p2) - of_int (snd p1)) / 3) ?c1y"
    using rounds_to_third [OF y(2)] by (simp only: third_exact)
  moreover have "rounds_to (of_int (snd p1) + 2 * (of_int (snd p2) - of_int (snd p1)) / 3) ?c2y"
    using rounds_to_third [OF y(3)] by (simp only: third_exact)
  moreover have "curve_coefficients H p1 p2 =
      ((of_int (fst p1), ?c1x, ?c2x, of_int (fst p2)),
       (of_int (H - snd p1), round_double (of_int H - ?c1y),
        round_double (of_int H - ?c2y), of_int (H - snd p2)))"
    using x(1) x(5) h(1) h(4) h(8)
    by (simp add: curve_coefficients_def Let_def fsub_def float_of_int_exact)
  then have "segment_equation H p1 p2 =
      curve_text
        ((of_int (fst p1), ?c1x, ?c2x, of_int (fst p2)),
         (of_int (H - snd p1), round_double (of_int H - ?c1y),
          round_double (of_int H - ?c2y), of_int (H - snd p2)))"
    using segment_curve [OF assms(1,2), of H] by simp
  ultimately show ?thesis by blast
qed

theorem curve_segment_control_points_witness:
  "\<exists>c1x c2x c1y c2y.
     rounds_to (of_int 0 + (of_int 10 - of_int 0) / 3) c1x \<and>
     rounds_to (of_int 0 + 2 * (of_int 10 - of_int 0) / 3) c2x \<and>
     rounds_to (of_int 0 + (of_int 10 - of_int 0) / 3) c1y \<and>
     rounds_to (of_int 0 + 2 * (of_int 10 - of_int 0) / 3) c2y \<and>
     segment_equation 20 (0, 0) (10, 10) =
       curve_text
         ((of_int 0, c1x, c2x, of_int 10),
          (of_int (20 - 0), round_double (of_int 20 - c1y),
           round_double (of_int 20 - c2y), of_int (20 - 10)))"
  using curve_segment_control_points [of "(10, 10)" "(0, 0)" 20] by simp

theorem diagonal_control_points_counterexample:
  "segment_equation 20 (0, 0) (10, 10) =
     ''(((1-t)^3*0.0 + 3*(1-t)^2*t*3.3333333333333335 + 3*(1-t)*t^2*6.666666666666667 + t^3*10.0), (1-t)^3*20.0 + 3*(1-t)^2*t*16.666666666666668 + 3*(1-t)*t^2*13.333333333333332 + t^3*10.0)'' \<and>
   fst (curve_coefficients 20 (0, 0) (10, 10)) =
     (0, 7505999378950827 / 2251799813685248, 7505999378950827 / 1125899906842624, 10) \<and>
   (7505999378950827 / 2251799813685248 :: rat) \<noteq> (2 * 0 + 10) / 3 \<and>
   (7505999378950827 / 1125899906842624 :: rat) \<noteq> (0 + 2 * 10) / 3"
proof -
  have "segment_equation 20 (0, 0) (10, 10) = curve_text (curve_coefficients 20 (0, 0) (10, 10))"
    using segment_curve [of "(10, 10)" "(0, 0)" 20] by simp
  then show ?thesis
    by (simp add: coefficients_0_10 blend_text_def repr_small_integers repr_third_of_10
        repr_two_thirds_of_10 repr_20_less_third repr_20_less_two_thirds)
qed

section \<open>The flip of the \<open>y\<close> axis\<close>

text \<open>
  Claim C7. Every \<open>y\<close> value written is the image height less the image row: the ends of
  a vertical range, the \<open>y\<close> of a horizontal line, and the four \<open>y\<close> coefficients of a
  curve, where the subtraction is done in floats for the two control points. A row \<open>0\<close>
  is written as \<open>H\<close> and a row \<open>H - 1\<close> as \<open>1\<close>.
\<close>

theorem cartesian_flip:
  "(fst p2 - fst p1 = 0 \<longrightarrow>
      segment_equation H p1 p2 =
        spec_render (VerticalLine (fst p1)
          (spec_cartY H (max (snd p1) (snd p2))) (spec_cartY H (min (snd p1) (snd p2))))) \<and>
   (fst p2 - fst p1 \<noteq> 0 \<and> snd p2 - snd p1 = 0 \<longrightarrow>
      segment_equation H p1 p2 =
        spec_render (HorizontalLine (spec_cartY H (snd p1))
          (min (fst p1) (fst p2)) (max (fst p1) (fst p2)))) \<and>
   (fst p2 - fst p1 \<noteq> 0 \<and> snd p2 - snd p1 \<noteq> 0 \<longrightarrow>
      segment_equation H p1 p2 = curve_text (curve_coefficients H p1 p2) \<and>
      snd (curve_coefficients H p1 p2) =
        (float_of_int (spec_cartY H (snd p1)),
         fsub (float_of_int H) (fdiv (float_of_int (2 * snd p1 + snd p2)) 3),
         fsub (float_of_int H) (fdiv (float_of_int (snd p1 + 2 * snd p2)) 3),
         float_of_int (spec_cartY H (snd p2)))) \<and>
   spec_cartY H 0 = H \<and> spec_cartY H (H - 1) = 1 \<and>
   (x1 \<noteq> x2 \<longrightarrow>
      segment_equation H (x1, 0) (x2, 0) = spec_render (HorizontalLine H (min x1 x2) (max x1 x2)) \<and>
      segment_equation H (x1, H - 1) (x2, H - 1) =
        spec_render (HorizontalLine 1 (min x1 x2) (max x1 x2))) \<and>
   (1 \<le> H \<longrightarrow> segment_equation H (x1, 0) (x1, H - 1) = spec_render (VerticalLine x1 1 H))"
proof -
  have v: "fst p2 - fst p1 = 0 \<Longrightarrow>
      segment_equation H p1 p2 =
        spec_render (VerticalLine (fst p1)
          (spec_cartY H (max (snd p1) (snd p2))) (spec_cartY H (min (snd p1) (snd p2))))"
    by (simp add: segment_vertical spec_cartY_def)
  have h: "fst p2 - fst p1 \<noteq> 0 \<Longrightarrow> snd p2 - snd p1 = 0 \<Longrightarrow>
      segment_equation H p1 p2 =
        spec_render (HorizontalLine (spec_cartY H (snd p1))
          (min (fst p1) (fst p2)) (max (fst p1) (fst p2)))"
    by (simp add: segment_horizontal spec_cartY_def)
  have c: "snd (curve_coefficients H p1 p2) =
        (float_of_int (spec_cartY H (snd p1)),
         fsub (float_of_int H) (fdiv (float_of_int (2 * snd p1 + snd p2)) 3),
         fsub (float_of_int H) (fdiv (float_of_int (snd p1 + 2 * snd p2)) 3),
         float_of_int (spec_cartY H (snd p2)))"
    by (simp add: curve_coefficients_def Let_def spec_cartY_def)
  have r0: "x1 \<noteq> x2 \<Longrightarrow>
      segment_equation H (x1, 0) (x2, 0) = spec_render (HorizontalLine H (min x1 x2) (max x1 x2))"
    by (simp add: segment_horizontal)
  have r1: "x1 \<noteq> x2 \<Longrightarrow>
      segment_equation H (x1, H - 1) (x2, H - 1) =
        spec_render (HorizontalLine 1 (min x1 x2) (max x1 x2))"
    by (simp add: segment_horizontal)
  have vv: "1 \<le> H \<Longrightarrow> segment_equation H (x1, 0) (x1, H - 1) = spec_render (VerticalLine x1 1 H)"
    by (simp add: segment_vertical)
  show ?thesis
    using v h c r0 r1 vv segment_curve [of p2 p1 H] by (simp add: spec_cartY_def)
qed

theorem cartesian_flip_witness:
  "segment_equation 8 (1, 0) (4, 0) = spec_render (HorizontalLine 8 1 4) \<and>
   segment_equation 8 (1, 7) (4, 7) = spec_render (HorizontalLine 1 1 4) \<and>
   segment_equation 8 (1, 0) (1, 7) = spec_render (VerticalLine 1 1 8) \<and>
   segment_equation 8 (1, 2) (1, 5) = spec_render (VerticalLine 1 3 6) \<and>
   snd (curve_coefficients 8 (0, 0) (3, 3)) = (8, 7, 6, 5)"
proof -
  note a = cartesian_flip [of "(1, 5)" "(1, 2)" 8 1 4]
  note b = cartesian_flip [of "(3, 3)" "(0, 0)" 8 1 4]
  have f: "float_of_int 8 = 8" "float_of_int 5 = 5" "fsub 8 1 = 7" "fsub 8 2 = 6"
    "fdiv (float_of_int 3) 3 = 1" "fdiv (float_of_int 6) 3 = 2"
    by (simp_all add: round_eval)
  from a have "segment_equation 8 (1, 0) (4, 0) = spec_render (HorizontalLine 8 1 4) \<and>
     segment_equation 8 (1, 7) (4, 7) = spec_render (HorizontalLine 1 1 4) \<and>
     segment_equation 8 (1, 0) (1, 7) = spec_render (VerticalLine 1 1 8) \<and>
     segment_equation 8 (1, 2) (1, 5) = spec_render (VerticalLine 1 3 6)"
    by (simp add: spec_cartY_def)
  moreover from b have "snd (curve_coefficients 8 (0, 0) (3, 3)) = (8, 7, 6, 5)"
    by (simp add: spec_cartY_def f)
  ultimately show ?thesis by blast
qed

section \<open>The text of a line\<close>

lemma contour_loop_lines_segment:
  "l \<in> set (contour_loop cv H k cs []) \<Longrightarrow> \<exists>p1 p2. l = segment_equation H p1 p2"
proof (induction cs)
  case Nil
  then show ?case by simp
next
  case (Cons c cs)
  from Cons.prems consider
      (here) i where "l = segment_at H (approxPolyDP cv c (fmul k (arcLength cv c True)) True) i"
    | (later) "l \<in> set (contour_loop cv H k cs [])"
    unfolding contour_loop_Cons by (auto simp: set_polygon_equations split: if_splits)
  then show ?case
  proof cases
    case here
    then show ?thesis
      unfolding segment_at_def by blast
  next
    case later
    then show ?thesis by (rule Cons.IH)
  qed
qed

lemma segment_equation_cases:
  "(fst p2 - fst p1 = 0 \<and>
      segment_equation H p1 p2 =
        spec_render (VerticalLine (fst p1) (H - max (snd p1) (snd p2)) (H - min (snd p1) (snd p2)))) \<or>
   (fst p2 - fst p1 \<noteq> 0 \<and> snd p2 - snd p1 = 0 \<and>
      segment_equation H p1 p2 =
        spec_render (HorizontalLine (H - snd p1) (min (fst p1) (fst p2)) (max (fst p1) (fst p2)))) \<or>
   (fst p2 - fst p1 \<noteq> 0 \<and> snd p2 - snd p1 \<noteq> 0 \<and>
      segment_equation H p1 p2 = curve_text (curve_coefficients H p1 p2))"
  using segment_vertical [of p2 p1 H] segment_horizontal [of p2 p1 H] segment_curve [of p2 p1 H]
  by (cases "fst p2 - fst p1 = 0"; cases "snd p2 - snd p1 = 0") simp_all

subsection \<open>The lines of the output text\<close>

lemma digit_char_is_digit: "d < 10 \<Longrightarrow> is_digit (digit_char d)"
proof -
  assume "d < 10"
  then have "nat d < length ''0123456789''" by simp
  then have "''0123456789'' ! nat d \<in> set ''0123456789''" by (rule nth_mem)
  then show ?thesis by (simp only: is_digit_def digit_char_def)
qed

lemma str_nat_all_digits: "\<forall>c \<in> set (str_nat n). is_digit c"
proof (induction n rule: str_nat.induct)
  case (1 n)
  show ?case
  proof (cases "n < 10")
    case True
    then show ?thesis by (simp add: str_nat.simps [of n] digit_char_is_digit)
  next
    case False
    with 1 have "\<forall>c \<in> set (str_nat (n div 10)). is_digit c" by simp
    then show ?thesis
      using False by (simp add: str_nat.simps [of n] digit_char_is_digit)
  qed
qed

lemma is_digit_not_newline: "is_digit c \<Longrightarrow> c \<noteq> newline"
  by (auto simp: is_digit_def newline_def)

lemma str_nat_no_newline: "newline \<notin> set (str_nat n)"
  using str_nat_all_digits [of n] is_digit_not_newline by blast

lemma str_int_no_newline: "newline \<notin> set (str_int n)"
  using str_nat_no_newline by (simp add: str_int_def newline_def)

lemma layout_digits_no_newline:
  assumes "newline \<notin> set ds"
  shows "newline \<notin> set (layout_digits ds decpt)"
proof -
  have t: "newline \<notin> set (take k ds)" for k using assms by (auto dest: in_set_takeD)
  have d: "newline \<notin> set (drop k ds)" for k using assms by (auto dest: in_set_dropD)
  have e: "newline \<notin> set (str_exponent x)" for x
    using str_nat_no_newline by (simp add: str_exponent_def newline_def)
  show ?thesis
    using assms t d e by (simp add: layout_digits_def) (simp add: newline_def)
qed

lemma float_repr_no_newline: "newline \<notin> set (float_repr v)"
proof (cases "v = 0")
  case True
  then show ?thesis by (simp add: float_repr_def newline_def)
next
  case False
  obtain n s where ns: "shortest_digits \<bar>v\<bar> 1 = (n, s)" by (cases "shortest_digits \<bar>v\<bar> 1")
  have fr: "float_repr v = (if v < 0 then ''-'' else []) @ layout_number (str_nat n) s"
    using False ns by (simp add: float_repr_def)
  have "newline \<notin> set (strip_zeros (str_nat n))"
    using str_nat_no_newline [of n] by (auto simp: strip_zeros_def dest: set_dropWhileD)
  then have "newline \<notin> set (layout_number (str_nat n) s)"
    unfolding layout_number_def by (rule layout_digits_no_newline)
  then show ?thesis
    unfolding fr by (simp add: newline_def)
qed

lemma spec_render_line_no_newline:
  "newline \<notin> set (spec_render (VerticalLine a b c))"
  "newline \<notin> set (spec_render (HorizontalLine a b c))"
  using str_int_no_newline by (simp_all add: range_text_def) (simp_all add: newline_def backslash_def)

lemma curve_text_no_newline: "newline \<notin> set (curve_text cs)"
proof -
  obtain a b c d e f g h where cs: "cs = ((a, b, c, d), (e, f, g, h))"
    by (metis prod.exhaust)
  show ?thesis
    unfolding cs using float_repr_no_newline
    by (simp add: blend_text_def) (simp add: newline_def)
qed

lemma segment_equation_no_newline: "newline \<notin> set (segment_equation H p1 p2)"
  using segment_equation_cases [of p2 p1 H]
proof (elim disjE conjE)
  assume "segment_equation H p1 p2 =
    spec_render (VerticalLine (fst p1) (H - max (snd p1) (snd p2)) (H - min (snd p1) (snd p2)))"
  then show ?thesis by (simp only: spec_render_line_no_newline not_False_eq_True)
next
  assume "segment_equation H p1 p2 =
    spec_render (HorizontalLine (H - snd p1) (min (fst p1) (fst p2)) (max (fst p1) (fst p2)))"
  then show ?thesis by (simp only: spec_render_line_no_newline not_False_eq_True)
next
  assume "segment_equation H p1 p2 = curve_text (curve_coefficients H p1 p2)"
  then show ?thesis by (simp only: curve_text_no_newline not_False_eq_True)
qed

lemma split_lines_single: "newline \<notin> set l \<Longrightarrow> split_lines l = [l]"
  by (induction l) auto

lemma split_lines_first: "newline \<notin> set l \<Longrightarrow> split_lines (l @ newline # rest) = l # split_lines rest"
  by (induction l) auto

lemma split_join_lines:
  "ls \<noteq> [] \<Longrightarrow> \<forall>l \<in> set ls. newline \<notin> set l \<Longrightarrow> split_lines (join_lines ls) = ls"
proof (induction ls rule: join_lines.induct)
  case 1
  then show ?case by simp
next
  case (2 l)
  then show ?case by (simp add: split_lines_single)
next
  case (3 l l' ls)
  then show ?case by (simp add: split_lines_first)
qed

lemma equation_lines_no_newline: "l \<in> set (equation_lines cv img k) \<Longrightarrow> newline \<notin> set l"
  unfolding equation_lines_def Let_def
  using contour_loop_lines_segment segment_equation_no_newline by blast

lemma split_fallback_line: "split_lines fallback_line = [fallback_line]"
  by (rule split_lines_single) (simp add: fallback_line_def newline_def)

lemma output_lines:
  assumes "image_to_equations cv (Some img) k = Inr out"
  shows "split_lines out =
           (if equation_lines cv img k = [] then [fallback_line] else equation_lines cv img k)"
proof (cases "equation_lines cv img k = []")
  case True
  with assms show ?thesis
    by (auto simp: image_to_equations_def split_fallback_line)
next
  case False
  with assms have "out = join_lines (equation_lines cv img k)"
    by (auto simp: image_to_equations_def Let_def)
  with False show ?thesis
    using split_join_lines [of "equation_lines cv img k"] equation_lines_no_newline by auto
qed

subsection \<open>The syntax of a line\<close>

text \<open>
  Claim C1, as amended. Every line of the output text is the fallback line or the text of a vertical line
  \<open>x = X \left\{Y0 <= y <= Y1\right\}\<close>, of a horizontal line \<open>y = Y \left\{X0 <= x <= X1\right\}\<close>,
  or of a curve \<open>((Bx), By)\<close> where \<open>Bx\<close> and \<open>By\<close> are the cubic polynomial in \<open>t\<close> with the
  eight coefficients of the segment filled in, the \<open>x\<close> polynomial in parentheses and
  the \<open>y\<close> polynomial bare. The numbers of a vertical or horizontal line are integers
  written in decimal. The coefficients of a curve are floats written by \<open>repr\<close>: such a
  text always has a decimal point or an exponent, so it is never the text of an
  integer, also when the value is integral.
\<close>

theorem output_line_syntax:
  assumes "image_to_equations cv (Some img) k = Inr out" and "l \<in> set (split_lines out)"
  shows "(l = fallback_line \<or>
          (\<exists>p1 p2.
            (fst p2 - fst p1 = 0 \<and>
               l = spec_render (VerticalLine (fst p1)
                     (int (length img) - max (snd p1) (snd p2))
                     (int (length img) - min (snd p1) (snd p2)))) \<or>
            (fst p2 - fst p1 \<noteq> 0 \<and> snd p2 - snd p1 = 0 \<and>
               l = spec_render (HorizontalLine (int (length img) - snd p1)
                     (min (fst p1) (fst p2)) (max (fst p1) (fst p2)))) \<or>
            (fst p2 - fst p1 \<noteq> 0 \<and> snd p2 - snd p1 \<noteq> 0 \<and>
               l = curve_text (curve_coefficients (int (length img)) p1 p2)))) \<and>
         (\<forall>n. decimal_int (str_int n) = n \<and> (\<forall>c \<in> set (str_int n). is_digit c \<or> c = CHR ''-'')) \<and>
         (\<forall>v n. float_repr v \<noteq> str_int n \<and>
                (CHR ''.'' \<in> set (float_repr v) \<or> CHR ''e'' \<in> set (float_repr v)))"
proof -
  have "l = fallback_line \<or> (\<exists>p1 p2. l = segment_equation (int (length img)) p1 p2)"
  proof (cases "equation_lines cv img k = []")
    case True
    with assms show ?thesis by (simp add: output_lines)
  next
    case False
    with assms have "l \<in> set (equation_lines cv img k)" by (simp add: output_lines)
    then obtain p1 p2 where "l = segment_equation (int (length img)) p1 p2"
      unfolding equation_lines_def Let_def using contour_loop_lines_segment by blast
    then show ?thesis by blast
  qed
  then have "l = fallback_line \<or>
          (\<exists>p1 p2.
            (fst p2 - fst p1 = 0 \<and>
               l = spec_render (VerticalLine (fst p1)
                     (int (length img) - max (snd p1) (snd p2))
                     (int (length img) - min (snd p1) (snd p2)))) \<or>
            (fst p2 - fst p1 \<noteq> 0 \<and> snd p2 - snd p1 = 0 \<and>
               l = spec_render (HorizontalLine (int (length img) - snd p1)
                     (min (fst p1) (fst p2)) (max (fst p1) (fst p2)))) \<or>
            (fst p2 - fst p1 \<noteq> 0 \<and> snd p2 - snd p1 \<noteq> 0 \<and>
               l = curve_text (curve_coefficients (int (length img)) p1 p2)))"
  proof
    assume "l = fallback_line"
    then show ?thesis ..
  next
    assume "\<exists>p1 p2. l = segment_equation (int (length img)) p1 p2"
    then obtain p1 p2 where "l = segment_equation (int (length img)) p1 p2" by blast
    with segment_equation_cases [of p2 p1 "int (length img)"] show ?thesis
      by (simp only:) blast
  qed
  moreover have "\<forall>n. decimal_int (str_int n) = n \<and> (\<forall>c \<in> set (str_int n). is_digit c \<or> c = CHR ''-'')"
    using decimal_int_str_int str_int_chars by blast
  moreover have "\<forall>v n. float_repr v \<noteq> str_int n \<and>
                (CHR ''.'' \<in> set (float_repr v) \<or> CHR ''e'' \<in> set (float_repr v))"
    using float_repr_not_int float_repr_marked by blast
  ultimately show ?thesis by blast
qed

theorem output_line_syntax_witness:
  "image_to_equations cv_example (Some img_example) (1 / 500) =
     Inr (join_lines [spec_render (VerticalLine 1 3 7), spec_render (HorizontalLine 3 1 3),
                      spec_render (VerticalLine 3 3 7), spec_render (HorizontalLine 7 1 3)]) \<and>
   spec_render (HorizontalLine 3 1 3) \<in>
     set (split_lines (join_lines [spec_render (VerticalLine 1 3 7), spec_render (HorizontalLine 3 1 3),
                      spec_render (VerticalLine 3 3 7), spec_render (HorizontalLine 7 1 3)])) \<and>
   (spec_render (HorizontalLine 3 1 3) = fallback_line \<or>
    (\<exists>p1 p2.
      (fst p2 - fst p1 = 0 \<and>
         spec_render (HorizontalLine 3 1 3) =
           spec_render (VerticalLine (fst p1)
             (int (length img_example) - max (snd p1) (snd p2))
             (int (length img_example) - min (snd p1) (snd p2)))) \<or>
      (fst p2 - fst p1 \<noteq> 0 \<and> snd p2 - snd p1 = 0 \<and>
         spec_render (HorizontalLine 3 1 3) =
           spec_render (HorizontalLine (int (length img_example) - snd p1)
             (min (fst p1) (fst p2)) (max (fst p1) (fst p2)))) \<or>
      (fst p2 - fst p1 \<noteq> 0 \<and> snd p2 - snd p1 \<noteq> 0 \<and>
         spec_render (HorizontalLine 3 1 3) =
           curve_text (curve_coefficients (int (length img_example)) p1 p2))))"
proof -
  let ?ls = "[spec_render (VerticalLine 1 3 7), spec_render (HorizontalLine 3 1 3),
             spec_render (VerticalLine 3 3 7), spec_render (HorizontalLine 7 1 3)]"
  have out: "image_to_equations cv_example (Some img_example) (1 / 500) = Inr (join_lines ?ls)"
    by (simp add: image_to_equations_def equation_lines_example)
  have "split_lines (join_lines ?ls) = ?ls"
    using output_lines [OF out] by (simp add: equation_lines_example)
  then have m: "spec_render (HorizontalLine 3 1 3) \<in> set (split_lines (join_lines ?ls))"
    by simp
  from output_line_syntax [OF out m] out m show ?thesis by blast
qed

lemma curve_text_diag_up:
  "curve_text ((0, 1, 2, 3), (8, 7, 6, 5)) =
     ''(((1-t)^3*0.0 + 3*(1-t)^2*t*1.0 + 3*(1-t)*t^2*2.0 + t^3*3.0), (1-t)^3*8.0 + 3*(1-t)^2*t*7.0 + 3*(1-t)*t^2*6.0 + t^3*5.0)''"
  by (simp add: blend_text_def repr_small_integers)

lemma curve_text_diag_down:
  "curve_text ((3, 2, 1, 0), (5, 6, 7, 8)) =
     ''(((1-t)^3*3.0 + 3*(1-t)^2*t*2.0 + 3*(1-t)*t^2*1.0 + t^3*0.0), (1-t)^3*5.0 + 3*(1-t)^2*t*6.0 + 3*(1-t)*t^2*7.0 + t^3*8.0)''"
  by (simp add: blend_text_def repr_small_integers)

lemma spec_render_diag_up:
  "spec_render (spec_equation 8 (0, 0) (3, 3)) =
     ''(((1-t)^3*0 + 3*(1-t)^2*t*1 + 3*(1-t)*t^2*2 + t^3*3), ((1-t)^3*8 + 3*(1-t)^2*t*7 + 3*(1-t)*t^2*6 + t^3*5))''"
  by (simp add: spec_equation_def spec_control_def spec_number_def blend_text_def str_small)

theorem integral_coefficient_counterexample:
  "image_to_equations cv_diagonal (Some img_example) (1 / 500) =
     Inr (''(((1-t)^3*0.0 + 3*(1-t)^2*t*1.0 + 3*(1-t)*t^2*2.0 + t^3*3.0), (1-t)^3*8.0 + 3*(1-t)^2*t*7.0 + 3*(1-t)*t^2*6.0 + t^3*5.0)'' @
          [newline] @
          ''(((1-t)^3*3.0 + 3*(1-t)^2*t*2.0 + 3*(1-t)*t^2*1.0 + t^3*0.0), (1-t)^3*5.0 + 3*(1-t)^2*t*6.0 + 3*(1-t)*t^2*7.0 + t^3*8.0)'') \<and>
   spec_render (spec_equation 8 (0, 0) (3, 3)) =
     ''(((1-t)^3*0 + 3*(1-t)^2*t*1 + 3*(1-t)*t^2*2 + t^3*3), ((1-t)^3*8 + 3*(1-t)^2*t*7 + 3*(1-t)*t^2*6 + t^3*5))'' \<and>
   segment_equation 8 (0, 0) (3, 3) \<noteq> spec_render (spec_equation 8 (0, 0) (3, 3)) \<and>
   float_repr (float_of_int 3) = ''3.0'' \<and> str_int 3 = ''3''"
proof -
  have up: "segment_equation 8 (0, 0) (3, 3) = curve_text ((0, 1, 2, 3), (8, 7, 6, 5))"
    using segment_curve [of "(3, 3)" "(0, 0)" 8] by (simp add: coefficients_diag_up)
  have down: "segment_equation 8 (3, 3) (0, 0) = curve_text ((3, 2, 1, 0), (5, 6, 7, 8))"
    using segment_curve [of "(0, 0)" "(3, 3)" 8] by (simp add: coefficients_diag_down)
  have lines: "equation_lines cv_diagonal img_example (1 / 500) =
      [segment_equation 8 (0, 0) (3, 3), segment_equation 8 (3, 3) (0, 0)]"
    by (simp add: equation_lines_def detect_contours_def cv_diagonal_def cv_example_def
        img_example_def polygon_equations_eq segment_at_def upt_rec)
  have out: "image_to_equations cv_diagonal (Some img_example) (1 / 500) =
      Inr (segment_equation 8 (0, 0) (3, 3) @ [newline] @ segment_equation 8 (3, 3) (0, 0))"
    by (simp add: image_to_equations_def lines)
  have r3: "float_repr (float_of_int 3) = ''3.0''"
    by (simp add: float_of_int_exact repr_small_integers)
  have ne: "segment_equation 8 (0, 0) (3, 3) \<noteq> spec_render (spec_equation 8 (0, 0) (3, 3))"
    unfolding up curve_text_diag_up spec_render_diag_up by simp
  have res: "image_to_equations cv_diagonal (Some img_example) (1 / 500) =
     Inr (''(((1-t)^3*0.0 + 3*(1-t)^2*t*1.0 + 3*(1-t)*t^2*2.0 + t^3*3.0), (1-t)^3*8.0 + 3*(1-t)^2*t*7.0 + 3*(1-t)*t^2*6.0 + t^3*5.0)'' @
          [newline] @
          ''(((1-t)^3*3.0 + 3*(1-t)^2*t*2.0 + 3*(1-t)*t^2*1.0 + t^3*0.0), (1-t)^3*5.0 + 3*(1-t)^2*t*6.0 + 3*(1-t)*t^2*7.0 + t^3*8.0)'')"
    unfolding out up down curve_text_diag_up curve_text_diag_down ..
  have s3: "str_int 3 = ''3''"
    by (simp add: str_small)
  from res spec_render_diag_up ne r3 s3 show ?thesis
    by (intro conjI)
qed

section \<open>The output text and the fallback line\<close>

lemma trans_sym: "a = b \<Longrightarrow> c = b \<Longrightarrow> a = c"
  by simp

lemma split_lines_nonempty: "split_lines s \<noteq> []"
  by (induction s) (auto split: list.splits)

lemma join_lines_Cons_char: "join_lines ((c # l) # ls) = c # join_lines (l # ls)"
  by (cases ls) simp_all

lemma join_split_lines: "join_lines (split_lines s) = s"
proof (induction s)
  case Nil
  show ?case by simp
next
  case (Cons c cs)
  obtain l ls where sp: "split_lines cs = l # ls"
    using split_lines_nonempty [of cs] by (cases "split_lines cs") auto
  show ?case
  proof (cases "c = newline")
    case True
    then show ?thesis using Cons.IH by (simp add: sp)
  next
    case False
    then show ?thesis using Cons.IH by (simp add: sp join_lines_Cons_char)
  qed
qed

lemma split_lines_inj:
  assumes "split_lines s = split_lines t"
  shows "s = t"
proof -
  from assms have "join_lines (split_lines s) = join_lines (split_lines t)"
    by (rule arg_cong)
  then show ?thesis by (simp only: join_split_lines)
qed

lemma length_join_lines:
  "ls \<noteq> [] \<Longrightarrow> length (join_lines ls) = sum_list (map length ls) + (length ls - 1)"
  by (induction ls rule: join_lines.induct) simp_all

lemma equation_lines_not_fallback: "fallback_line \<notin> set (equation_lines cv img k)"
proof
  assume "fallback_line \<in> set (equation_lines cv img k)"
  then have "hd fallback_line \<in> {CHR ''x'', CHR ''y'', CHR ''(''}"
    unfolding equation_lines_def Let_def using contour_loop_lines_hd by blast
  then show False by (simp add: fallback_line_def)
qed

text \<open>
  Claim C8. For a decoded image the result is the text
  \<open># No contours/equations were detected. Try a clearer or higher-contrast image.\<close>
  exactly when no equation was produced over all the contours. Otherwise it is the
  produced lines joined by newlines: the one text whose lines are the produced lines, in
  their order, of the length of the lines and the newlines between them, and none of
  its lines is the fallback line.
\<close>

theorem fallback_iff_no_equations:
  "\<exists>out. image_to_equations cv (Some img) k = Inr out \<and>
     (out = ''# No contours/equations were detected. Try a clearer or higher-contrast image.'' \<longleftrightarrow>
        equation_lines cv img k = []) \<and>
     (out = fallback_line \<longleftrightarrow> equation_lines cv img k = []) \<and>
     (equation_lines cv img k \<noteq> [] \<longrightarrow>
        out = join_lines (equation_lines cv img k) \<and>
        split_lines out = equation_lines cv img k \<and>
        (\<forall>t. split_lines t = equation_lines cv img k \<longrightarrow> t = out) \<and>
        length out =
          sum_list (map length (equation_lines cv img k)) + (length (equation_lines cv img k) - 1) \<and>
        ''# No contours/equations were detected. Try a clearer or higher-contrast image.''
          \<notin> set (split_lines out))"
proof (cases "equation_lines cv img k = []")
  case True
  then show ?thesis by (simp add: image_to_equations_def fallback_line_def)
next
  case False
  let ?ls = "equation_lines cv img k"
  have out: "image_to_equations cv (Some img) k = Inr (join_lines ?ls)"
    using False by (simp add: image_to_equations_def Let_def)
  have sp: "split_lines (join_lines ?ls) = ?ls"
    using output_lines [OF out] False by simp
  have uniq: "t = join_lines ?ls" if "split_lines t = ?ls" for t
  proof (rule split_lines_inj)
    show "split_lines t = split_lines (join_lines ?ls)" using that sp by (rule trans_sym)
  qed
  have len: "length (join_lines ?ls) = sum_list (map length ?ls) + (length ?ls - 1)"
    using False by (rule length_join_lines)
  have nf: "fallback_line \<notin> set ?ls" by (rule equation_lines_not_fallback)
  have ne: "join_lines ?ls \<noteq> fallback_line"
  proof
    assume "join_lines ?ls = fallback_line"
    then have "split_lines (join_lines ?ls) = split_lines fallback_line" by simp
    then have "?ls = [fallback_line]" by (simp only: sp split_fallback_line)
    with nf show False by simp
  qed
  have lit: "fallback_line =
      ''# No contours/equations were detected. Try a clearer or higher-contrast image.''"
    by (simp add: fallback_line_def)
  have c2: "(join_lines ?ls =
      ''# No contours/equations were detected. Try a clearer or higher-contrast image.'') =
      (?ls = [])"
    unfolding lit [symmetric] using ne False by (simp only: simp_thms)
  have c3: "(join_lines ?ls = fallback_line) = (?ls = [])"
    using ne False by (simp only: simp_thms)
  have nl: "''# No contours/equations were detected. Try a clearer or higher-contrast image.''
      \<notin> set (split_lines (join_lines ?ls))"
    unfolding lit [symmetric] sp by (rule nf)
  have u: "\<forall>t. split_lines t = ?ls \<longrightarrow> t = join_lines ?ls"
    using uniq by blast
  have c4: "?ls \<noteq> [] \<longrightarrow>
        join_lines ?ls = join_lines ?ls \<and>
        split_lines (join_lines ?ls) = ?ls \<and>
        (\<forall>t. split_lines t = ?ls \<longrightarrow> t = join_lines ?ls) \<and>
        length (join_lines ?ls) = sum_list (map length ?ls) + (length ?ls - 1) \<and>
        ''# No contours/equations were detected. Try a clearer or higher-contrast image.''
          \<notin> set (split_lines (join_lines ?ls))"
    by (intro impI conjI refl sp u len nl)
  show ?thesis
    by (rule exI [of _ "join_lines ?ls"]) (intro conjI out c2 c3 c4)
qed

lemma example_text:
  "join_lines [spec_render (VerticalLine 1 3 7), spec_render (HorizontalLine 3 1 3),
               spec_render (VerticalLine 3 3 7), spec_render (HorizontalLine 7 1 3)] =
   ''x = 1 '' @ [backslash] @ ''left'' @ [backslash] @ ''{3 <= y <= 7'' @
     [backslash] @ ''right'' @ [backslash] @ ''}'' @ [newline] @
   ''y = 3 '' @ [backslash] @ ''left'' @ [backslash] @ ''{1 <= x <= 3'' @
     [backslash] @ ''right'' @ [backslash] @ ''}'' @ [newline] @
   ''x = 3 '' @ [backslash] @ ''left'' @ [backslash] @ ''{3 <= y <= 7'' @
     [backslash] @ ''right'' @ [backslash] @ ''}'' @ [newline] @
   ''y = 7 '' @ [backslash] @ ''left'' @ [backslash] @ ''{1 <= x <= 3'' @
     [backslash] @ ''right'' @ [backslash] @ ''}''"
  by (simp add: range_text_def str_small)

theorem fallback_iff_no_equations_witness:
  "image_to_equations cv_example (Some img_example) (1 / 500) =
     Inr (''x = 1 '' @ [backslash] @ ''left'' @ [backslash] @ ''{3 <= y <= 7'' @
            [backslash] @ ''right'' @ [backslash] @ ''}'' @ [newline] @
          ''y = 3 '' @ [backslash] @ ''left'' @ [backslash] @ ''{1 <= x <= 3'' @
            [backslash] @ ''right'' @ [backslash] @ ''}'' @ [newline] @
          ''x = 3 '' @ [backslash] @ ''left'' @ [backslash] @ ''{3 <= y <= 7'' @
            [backslash] @ ''right'' @ [backslash] @ ''}'' @ [newline] @
          ''y = 7 '' @ [backslash] @ ''left'' @ [backslash] @ ''{1 <= x <= 3'' @
            [backslash] @ ''right'' @ [backslash] @ ''}'') \<and>
   image_to_equations cv_example (Some img_example) (1 / 500) \<noteq>
     Inr ''# No contours/equations were detected. Try a clearer or higher-contrast image.'' \<and>
   image_to_equations (cv_example\<lparr>findContours := \<lambda>g. []\<rparr>) (Some img_example) (1 / 500) =
     Inr ''# No contours/equations were detected. Try a clearer or higher-contrast image.''"
proof -
  let ?cv0 = "cv_example\<lparr>findContours := \<lambda>g. []\<rparr>"
  have none: "equation_lines ?cv0 img_example (1 / 500) = []"
    by (simp add: equation_lines_def detect_contours_def)
  from fallback_iff_no_equations [of ?cv0 img_example "1 / 500"]
  have a: "image_to_equations ?cv0 (Some img_example) (1 / 500) =
      Inr ''# No contours/equations were detected. Try a clearer or higher-contrast image.''"
    unfolding none by auto
  from fallback_iff_no_equations [of cv_example img_example "1 / 500"]
  have b: "image_to_equations cv_example (Some img_example) (1 / 500) =
      Inr (join_lines [spec_render (VerticalLine 1 3 7), spec_render (HorizontalLine 3 1 3),
                       spec_render (VerticalLine 3 3 7), spec_render (HorizontalLine 7 1 3)])"
    and c: "image_to_equations cv_example (Some img_example) (1 / 500) \<noteq>
      Inr ''# No contours/equations were detected. Try a clearer or higher-contrast image.''"
    unfolding equation_lines_example by auto
  from a b c show ?thesis
    unfolding example_text by (intro conjI)
qed

end
